theory Spec2Isabelle
  imports Main "HOL-Library.Word" "HOL-Library.AList"
begin

section \<open>Data model (internal/resizers/model.go)\<close>

type_synonym byte = "8 word"
type_synonym uint = "64 word"

text \<open>
  Go errors. \<open>ErrContextCancelled\<close> is the package variable \<open>errContextCancelled\<close>;
  \<open>Wrapf\<close> is \<open>fmt.Errorf\<close> with the verb \<open>%w\<close> (the cause stays reachable for
  \<open>errors.Is\<close>), \<open>Errorf\<close> is \<open>fmt.Errorf\<close> with \<open>%v\<close> (only the text of the cause is
  kept), \<open>Failure\<close> is an error made by a library, \<open>NonOKStatus\<close> is the
  \<open>non-200 status: %d\<close> error of \<open>fetch\<close>.
\<close>

datatype error =
    ErrContextCancelled
  | Failure string
  | NonOKStatus int
  | Errorf string error
  | Wrapf string error

fun errors_Is_ErrContextCancelled :: "error \<Rightarrow> bool" where
  "errors_Is_ErrContextCancelled ErrContextCancelled = True"
| "errors_Is_ErrContextCancelled (Wrapf msg e) = errors_Is_ErrContextCancelled e"
| "errors_Is_ErrContextCancelled (Failure msg) = False"
| "errors_Is_ErrContextCancelled (NonOKStatus n) = False"
| "errors_Is_ErrContextCancelled (Errorf msg e) = False"

record ResizeRequest =
  Async :: bool
  URLs :: "string list"
  Width :: uint
  Height :: uint

text \<open>\<open>ResizeData\<close>: the fields \<open>Key\<close>, \<open>URL\<close>, \<open>Width\<close>, \<open>Height\<close> of the source, prefixed
  with \<open>d\<close> because record fields share one name space.\<close>

record ResizeData =
  dKey :: string
  dURL :: string
  dWidth :: uint
  dHeight :: uint

text \<open>The zero value of \<open>ResizeResult\<close> (\<open>var result ResizeResult\<close>) is
  \<open>\<lparr>Result = [], URL = [], Cached = False\<rparr>\<close>.\<close>

record ResizeResult =
  Result :: string
  URL :: string
  Cached :: bool

definition proto :: string where "proto = ''http://''"
definition hostport :: string where "hostport = ''localhost:8080''"
definition success :: string where "success = ''success''"
definition inProgress :: string where "inProgress = ''in-progress''"
definition failure :: string where "failure = ''failure''"
definition imageURLOutputPath :: string where "imageURLOutputPath = ''/v1/image/''"
definition jpegExtension :: string where "jpegExtension = ''.jpeg''"

section \<open>The outside world\<close>

text \<open>
  The library calls the source makes are parameters of the model: \<open>sha256.Sum256\<close>,
  \<open>base64.URLEncoding.EncodeToString\<close>, \<open>http.Get\<close> (an error text, or the status code
  with what reading the body gives), \<open>jpeg.Decode\<close>, \<open>resize.Resize\<close> with the
  Lanczos3 filter, \<open>jpeg.Encode\<close>, and the JSON codec of the handler: decoding a
  body gives the fields \<open>urls\<close>, \<open>width\<close> and \<open>height\<close> (the field \<open>Async\<close> has the tag
  \<open>json:"-"\<close>, so no body sets it). \<open>'img\<close> is \<open>image.Image\<close>.
\<close>

record response =
  StatusCode :: int
  Body :: "string + byte list"

record 'img env =
  sha256_Sum256 :: "byte list \<Rightarrow> byte list"
  base64_EncodeToString :: "byte list \<Rightarrow> string"
  http_Get :: "string \<Rightarrow> string + response"
  jpeg_Decode :: "byte list \<Rightarrow> string + 'img"
  jpgresize_Resize :: "uint \<Rightarrow> uint \<Rightarrow> 'img \<Rightarrow> 'img"
  jpeg_Encode :: "'img \<Rightarrow> string + byte list"
  json_Decode :: "string \<Rightarrow> string + (string list \<times> uint \<times> uint)"
  json_Marshal :: "ResizeResult list \<Rightarrow> string + string"

definition bytes_of_string :: "string \<Rightarrow> byte list" where
  "bytes_of_string s = map (\<lambda>c. of_nat (of_char c)) s"

definition genID :: "'img env \<Rightarrow> string \<Rightarrow> string" where
  "genID env url = base64_EncodeToString env (sha256_Sum256 env (bytes_of_string url))"

definition newURL :: "string \<Rightarrow> string" where
  "newURL key = proto @ hostport @ key"

definition genKey :: "'img env \<Rightarrow> string \<Rightarrow> string" where
  "genKey env url = imageURLOutputPath @ genID env url @ jpegExtension"

definition fetch :: "'img env \<Rightarrow> string \<Rightarrow> error + byte list" where
  "fetch env url =
     (case http_Get env url of
        Inl e \<Rightarrow> Inl (Errorf ''fetch failed'' (Failure e))
      | Inr r \<Rightarrow>
          if StatusCode r \<noteq> 200 then Inl (NonOKStatus (StatusCode r))
          else (case Body r of
                  Inl e \<Rightarrow> Inl (Errorf ''failed to read fetch data'' (Failure e))
                | Inr data \<Rightarrow> Inr (take (15 * 1024 * 1024) data)))"

definition resize :: "'img env \<Rightarrow> byte list \<Rightarrow> uint \<Rightarrow> uint \<Rightarrow> error + byte list" where
  "resize env data width height =
     (case jpeg_Decode env data of
        Inl e \<Rightarrow> Inl (Errorf ''failed to jped decode'' (Failure e))
      | Inr img \<Rightarrow>
          (case jpeg_Encode env (jpgresize_Resize env width height img) of
             Inl e \<Rightarrow> Inl (Errorf ''failed to jpeg encode resized image'' (Failure e))
           | Inr newData \<Rightarrow> Inr newData))"

definition fetchAndResize :: "'img env \<Rightarrow> ResizeData \<Rightarrow> error + byte list" where
  "fetchAndResize env request =
     (case fetch env (dURL request) of
        Inl err \<Rightarrow> Inl err
      | Inr data \<Rightarrow> resize env data (dWidth request) (dHeight request))"

section \<open>The fixed-capacity cache\<close>

text \<open>
  Modelled from the spec: the fixed-capacity cache with recency-based eviction
  (\<open>lru.Cache\<close> of github.com/hashicorp/golang-lru) is a dependency whose code is not
  part of the repository. The spec gives its interface: \<open>Get(key) -> (value, found)\<close>,
  \<open>Contains(key) -> bool\<close>, \<open>Add(key, value)\<close>, \<open>Remove(key) -> bool\<close>. The items are
  kept most recently used first; \<open>Get\<close> and \<open>Add\<close> move the key to the front,
  \<open>Contains\<close> does not; \<open>Add\<close> of a new key to a full cache drops the last item.
  The values are of type \<open>any\<close>: \<open>StoredBytes\<close> is a \<open>[]byte\<close>, \<open>StoredOther\<close> anything
  else.
\<close>

datatype stored = StoredBytes "byte list" | StoredOther

record lru =
  lru_size :: nat
  lru_items :: "(string \<times> stored) list"

definition lru_New :: "int \<Rightarrow> error + lru" where
  "lru_New n = (if n \<le> 0 then Inl (Failure ''Must provide a positive size'')
                else Inr \<lparr>lru_size = nat n, lru_items = []\<rparr>)"

definition lru_Contains :: "lru \<Rightarrow> string \<Rightarrow> bool" where
  "lru_Contains c k = (map_of (lru_items c) k \<noteq> None)"

definition lru_Get :: "lru \<Rightarrow> string \<Rightarrow> lru \<times> stored option" where
  "lru_Get c k =
     (case map_of (lru_items c) k of
        None \<Rightarrow> (c, None)
      | Some v \<Rightarrow> (c\<lparr>lru_items := (k, v) # filter (\<lambda>e. fst e \<noteq> k) (lru_items c)\<rparr>, Some v))"

definition lru_Add :: "lru \<Rightarrow> string \<Rightarrow> stored \<Rightarrow> lru \<times> bool" where
  "lru_Add c k v =
     (if lru_Contains c k
      then (c\<lparr>lru_items := (k, v) # filter (\<lambda>e. fst e \<noteq> k) (lru_items c)\<rparr>, False)
      else (let items = (k, v) # lru_items c
            in if lru_size c < length items
               then (c\<lparr>lru_items := butlast items\<rparr>, True)
               else (c\<lparr>lru_items := items\<rparr>, False)))"

definition lru_Remove :: "lru \<Rightarrow> string \<Rightarrow> lru \<times> bool" where
  "lru_Remove c k =
     (if lru_Contains c k
      then (c\<lparr>lru_items := filter (\<lambda>e. fst e \<noteq> k) (lru_items c)\<rparr>, True)
      else (c, False))"

section \<open>Channels, goroutines and the service\<close>

text \<open>
  An unbuffered channel: the values its blocked senders offer, and whether it is closed.
\<close>

record 'a chan =
  chan_offered :: "'a list"
  chan_closed :: bool

definition make_chan :: "'a chan" where
  "make_chan = \<lparr>chan_offered = [], chan_closed = False\<rparr>"

text \<open>
  The goroutine that \<open>newResizeWorker\<close> starts, with the two channels of its
  \<open>WorkerResizeResult\<close> (fields \<open>value\<close> and \<open>done\<close> of the source). The program counter:
  \<open>WSpawned\<close> before the \<open>select\<close>, \<open>WResized\<close> after \<open>resizeAndCache\<close> returned,
  \<open>WReturning\<close> when the function body is left and the deferred \<open>Close\<close> is due,
  \<open>WClosed\<close> at the end.
\<close>

datatype worker_pc = WSpawned | WResized | WReturning | WClosed

record worker =
  w_request :: ResizeData
  w_ctxDone :: bool
  w_pc :: worker_pc
  wr_value :: "string chan"
  wr_done :: "unit chan"

text \<open>The values of the two \<open>sync.Map\<close>s are of type \<open>any\<close>. A \<open>WorkerResizeResult\<close>
  is a pair of channels; it is named by the index of its goroutine in \<open>jobs\<close>.\<close>

datatype worker_value = WorkerResizeResult nat | WorkerOther
datatype deadline_value = TimeValue int | DeadlineOther

text \<open>The goroutine of \<open>getWorkerWorkStream\<close> (the bridge) and the one of
  \<open>startWorkerCleaner\<close>.\<close>

datatype bridge_pc = BNotStarted | BSelect | BRange nat | BRelay nat string | BExited
datatype cleaner_pc = CNotStarted | CSelect | CExited

text \<open>
  The \<open>Service\<close> struct (\<open>cache\<close>, \<open>workerWorkStream\<close>, \<open>workerResultStream\<close>, \<open>workers\<close>,
  \<open>cacheDeadline\<close>; the two \<open>sync.Map\<close>s as association lists) and the rest of the
  running process: the worker goroutines, the bridge, the cleaner, the context of
  \<open>StartWorkerHandler\<close>, the clock that \<open>time.Now\<close> reads (in nanoseconds) and the
  URLs \<open>http.Get\<close> was called with, oldest first.
\<close>

record Service =
  cache :: lru
  workerWorkStream :: "string chan"
  workerResultStream :: "nat chan"
  workers :: "(string \<times> worker_value) list"
  cacheDeadline :: "(string \<times> deadline_value) list"
  jobs :: "worker list"
  bridge :: bridge_pc
  cleaner :: cleaner_pc
  appCtxDone :: bool
  now :: int
  fetched :: "string list"

definition NewService :: "lru \<Rightarrow> Service" where
  "NewService setupCache =
     \<lparr>cache = setupCache, workerWorkStream = make_chan, workerResultStream = make_chan,
      workers = [], cacheDeadline = [], jobs = [], bridge = BNotStarted,
      cleaner = CNotStarted, appCtxDone = False, now = 0, fetched = []\<rparr>"

section \<open>resizeAndCache and the synchronous path\<close>

definition resizeAndCache :: "'img env \<Rightarrow> ResizeData \<Rightarrow> Service \<Rightarrow> Service \<times> error option" where
  "resizeAndCache env request s =
     (let s1 = s\<lparr>fetched := fetched s @ [dURL request]\<rparr>
      in case fetchAndResize env request of
           Inl err \<Rightarrow> (s1, Some (Wrapf ''unable to resize'' err))
         | Inr data \<Rightarrow>
             (s1\<lparr>cache := fst (lru_Add (cache s1) (dKey request) (StoredBytes data)),
                 cacheDeadline :=
                   AList.update (dKey request) (TimeValue (now s1)) (cacheDeadline s1)\<rparr>,
              None))"

text \<open>One iteration of the loop of \<open>processResizesSync\<close>, on the service and the
  results appended so far.\<close>

definition syncStep ::
  "'img env \<Rightarrow> ResizeRequest \<Rightarrow> string \<Rightarrow> Service \<times> ResizeResult list \<Rightarrow> Service \<times> ResizeResult list"
where
  "syncStep env request url acc =
     (let s = fst acc; results = snd acc;
          key = genKey env url;
          newURL = newURL key
      in if lru_Contains (cache s) key
         then (s, results @ [\<lparr>Result = success, URL = newURL, Cached = True\<rparr>])
         else (let resizeData = \<lparr>dKey = key, dURL = url,
                                  dWidth = Width request, dHeight = Height request\<rparr>;
                   r = resizeAndCache env resizeData s
               in case snd r of
                    Some err \<Rightarrow> (fst r, results @ [\<lparr>Result = failure, URL = [], Cached = False\<rparr>])
                  | None \<Rightarrow> (fst r, results @ [\<lparr>Result = success, URL = newURL, Cached = False\<rparr>])))"

definition processResizesSync ::
  "'img env \<Rightarrow> ResizeRequest \<Rightarrow> Service \<Rightarrow> Service \<times> ResizeResult list \<times> error option"
where
  "processResizesSync env request s =
     (let r = fold (syncStep env request) (URLs request) (s, [])
      in (fst r, snd r, None))"

section \<open>The asynchronous path\<close>

text \<open>\<open>newResizeWorker\<close> makes the two channels and starts the goroutine; the
  \<open>WorkerResizeResult\<close> it returns is the index of the goroutine. \<open>ctxDone\<close> says
  whether the context it is given is done.\<close>

definition newResizeWorker :: "bool \<Rightarrow> ResizeData \<Rightarrow> Service \<Rightarrow> Service \<times> nat" where
  "newResizeWorker ctxDone request s =
     (s\<lparr>jobs := jobs s @ [\<lparr>w_request = request, w_ctxDone = ctxDone, w_pc = WSpawned,
                            wr_value = make_chan, wr_done = make_chan\<rparr>]\<rparr>,
      length (jobs s))"

text \<open>The context of \<open>makeWorkerResizeImage\<close> is \<open>context.Background()\<close>, which is never
  done. The call of \<open>watchProcess\<close> that would hand the worker's \<open>value\<close> channel to the
  bridge is commented out in the source (line 248), so nothing is offered on
  \<open>workerResultStream\<close>.\<close>

definition makeWorkerResizeImage :: "ResizeData \<Rightarrow> Service \<Rightarrow> Service" where
  "makeWorkerResizeImage resizeData s =
     (let r = newResizeWorker False resizeData s;
          s1 = fst r; workerWork = snd r
      in s1\<lparr>workers := AList.update (dKey resizeData) (WorkerResizeResult workerWork) (workers s1)\<rparr>)"

definition asyncStep ::
  "'img env \<Rightarrow> ResizeRequest \<Rightarrow> string \<Rightarrow> Service \<times> ResizeResult list \<Rightarrow> Service \<times> ResizeResult list"
where
  "asyncStep env request url acc =
     (let s = fst acc; results = snd acc;
          key = genKey env url
      in if lru_Contains (cache s) key
         then (s, results @ [\<lparr>Result = success, URL = newURL key, Cached = True\<rparr>])
         else (let workerResizeData = \<lparr>dKey = key, dURL = url,
                                        dWidth = Width request, dHeight = Height request\<rparr>
               in (makeWorkerResizeImage workerResizeData s,
                   results @ [\<lparr>Result = inProgress, URL = newURL key, Cached = False\<rparr>])))"

definition processResizesAsync ::
  "'img env \<Rightarrow> ResizeRequest \<Rightarrow> Service \<Rightarrow> Service \<times> ResizeResult list \<times> error option"
where
  "processResizesAsync env request s =
     (let r = fold (asyncStep env request) (URLs request) (s, [])
      in (fst r, snd r, None))"

text \<open>\<open>ProcessResizes\<close>; the \<open>nil\<close> slice of the error return is \<open>[]\<close>.\<close>

definition ProcessResizes ::
  "'img env \<Rightarrow> ResizeRequest \<Rightarrow> Service \<Rightarrow> Service \<times> ResizeResult list \<times> error option"
where
  "ProcessResizes env request s =
     (let r = (if Async request then processResizesAsync env request s
               else processResizesSync env request s)
      in case snd (snd r) of
           Some err \<Rightarrow> (fst r, [], Some (Wrapf ''unable to resize request'' err))
         | None \<Rightarrow> (fst r, fst (snd r), None))"

section \<open>The worker goroutine\<close>

definition set_worker :: "nat \<Rightarrow> (worker \<Rightarrow> worker) \<Rightarrow> Service \<Rightarrow> Service" where
  "set_worker j f s = s\<lparr>jobs := (jobs s)[j := f (jobs s ! j)]\<rparr>"

text \<open>\<open>WorkerResizeResult.Close\<close>: \<open>close(w.done)\<close>, then \<open>close(w.value)\<close>.\<close>

definition Close :: "worker \<Rightarrow> worker" where
  "Close w = w\<lparr>wr_done := (wr_done w)\<lparr>chan_closed := True\<rparr>,
               wr_value := (wr_value w)\<lparr>chan_closed := True\<rparr>\<rparr>"

text \<open>
  One step of the goroutine of job \<open>j\<close>: the \<open>select\<close> with \<open>resizeAndCache\<close> in its
  default case; then \<open>s.workers.Delete(request.Key)\<close>; then the deferred \<open>Close\<close>. The
  send of the key on \<open>resultStream.value\<close> is commented out in the source (lines
  368 to 373), so the goroutine offers nothing on that channel.
\<close>

definition workerStep :: "'img env \<Rightarrow> nat \<Rightarrow> Service \<Rightarrow> Service" where
  "workerStep env j s =
     (if length (jobs s) \<le> j then s
      else (let w = jobs s ! j
            in case w_pc w of
                 WSpawned \<Rightarrow>
                   if w_ctxDone w then set_worker j (\<lambda>w. w\<lparr>w_pc := WReturning\<rparr>) s
                   else set_worker j (\<lambda>w. w\<lparr>w_pc := WResized\<rparr>)
                          (fst (resizeAndCache env (w_request w) s))
               | WResized \<Rightarrow>
                   set_worker j (\<lambda>w. w\<lparr>w_pc := WReturning\<rparr>)
                     (s\<lparr>workers := AList.delete (dKey (w_request w)) (workers s)\<rparr>)
               | WReturning \<Rightarrow> set_worker j (\<lambda>w. (Close w)\<lparr>w_pc := WClosed\<rparr>) s
               | WClosed \<Rightarrow> s))"

text \<open>The goroutine of job \<open>j\<close> run from its start to its end with nothing in between.\<close>

definition runWorker :: "'img env \<Rightarrow> nat \<Rightarrow> Service \<Rightarrow> Service" where
  "runWorker env j s = workerStep env j (workerStep env j (workerStep env j s))"

section \<open>GetImage\<close>

text \<open>A call that can block either returns or is still blocked in the state it is
  looked at.\<close>

datatype 'a outcome = Blocks | Returns 'a

definition doneClosed :: "Service \<Rightarrow> nat \<Rightarrow> bool" where
  "doneClosed s j = (j < length (jobs s) \<and> chan_closed (wr_done (jobs s ! j)))"

text \<open>
  \<open>ctxDone\<close>: the caller's context is done. The \<open>select\<close> takes the case that is ready;
  when both are ready Go picks one of them, here by \<open>pickCtx\<close>; when none is it blocks.
\<close>

definition waitIfImageIsStillInProgress ::
  "bool \<Rightarrow> bool \<Rightarrow> string \<Rightarrow> Service \<Rightarrow> error option outcome"
where
  "waitIfImageIsStillInProgress ctxDone pickCtx key s =
     (case map_of (workers s) key of
        None \<Rightarrow> Returns None
      | Some WorkerOther \<Rightarrow> Returns None
      | Some (WorkerResizeResult workerResult) \<Rightarrow>
          if ctxDone \<and> doneClosed s workerResult
          then (if pickCtx then Returns (Some ErrContextCancelled) else Returns None)
          else if ctxDone then Returns (Some ErrContextCancelled)
          else if doneClosed s workerResult then Returns None
          else Blocks)"

text \<open>\<open>GetImage\<close> returns the service (\<open>cache.Get\<close> moves the key to the front), the
  bytes (\<open>None\<close> is the \<open>nil\<close> slice) and the error.\<close>

definition GetImage ::
  "bool \<Rightarrow> bool \<Rightarrow> string \<Rightarrow> Service \<Rightarrow> (Service \<times> byte list option \<times> error option) outcome"
where
  "GetImage ctxDone pickCtx key s =
     (case waitIfImageIsStillInProgress ctxDone pickCtx key s of
        Blocks \<Rightarrow> Blocks
      | Returns (Some err) \<Rightarrow>
          if errors_Is_ErrContextCancelled err
          then Returns (s, None, Some ErrContextCancelled)
          else Returns (s, None,
                 Some (Wrapf ''unable to check if image is still in resize process'' err))
      | Returns None \<Rightarrow>
          (let r = lru_Get (cache s) key; s1 = s\<lparr>cache := fst r\<rparr>
           in case snd r of
                None \<Rightarrow> Returns (s1, None, None)
              | Some StoredOther \<Rightarrow> Returns (s1, None, None)
              | Some (StoredBytes result) \<Rightarrow> Returns (s1, Some result, None)))"

section \<open>The eviction sweep\<close>

definition second :: int where "second = 1000000000"

text \<open>The function \<open>StartCacheEviction\<close> passes to \<open>cacheDeadline.Range\<close> (\<open>evictEntry\<close>), and
  what its goroutine does when \<open>time.After(2 * time.Second)\<close> fires (\<open>evictionTick\<close>):
  \<open>Range\<close> over the entries the table has at that moment, in the order of the table,
  with one reading of the clock for the whole tick.\<close>

definition evictEntry :: "string \<Rightarrow> deadline_value \<Rightarrow> Service \<Rightarrow> Service" where
  "evictEntry key v s =
     (case v of
        DeadlineOther \<Rightarrow> s
      | TimeValue timeValue \<Rightarrow>
          (let calculatedTime = timeValue + 5 * second
           in if calculatedTime < now s then s
              else (let r = lru_Remove (cache s) key
                    in if \<not> snd r then s
                       else s\<lparr>cache := fst r,
                              cacheDeadline := AList.delete key (cacheDeadline s)\<rparr>)))"

definition evictionTick :: "Service \<Rightarrow> Service" where
  "evictionTick s = fold (\<lambda>kv. evictEntry (fst kv) (snd kv)) (cacheDeadline s) s"

section \<open>The bridge and the cleaner\<close>

text \<open>\<open>StartWorkerHandler\<close> starts the goroutine of \<open>getWorkerWorkStream\<close>, whose
  \<open>bridgeStream\<close> becomes \<open>workerWorkStream\<close>, and the one of \<open>startWorkerCleaner\<close>.\<close>

definition StartWorkerHandler :: "Service \<Rightarrow> Service" where
  "StartWorkerHandler s = s\<lparr>workerWorkStream := make_chan, bridge := BSelect, cleaner := CSelect\<rparr>"

definition bridgeExit :: "Service \<Rightarrow> Service" where
  "bridgeExit s = s\<lparr>bridge := BExited,
                    workerWorkStream := (workerWorkStream s)\<lparr>chan_closed := True\<rparr>\<rparr>"

text \<open>
  One step of the bridge. At \<open>BSelect\<close> it waits for the context or for a stream on
  \<open>workerResultStream\<close>; at \<open>BRange c\<close> it reads the next value of the stream of job
  \<open>c\<close>, until that channel is closed; at \<open>BRelay c v\<close> it offers \<open>v\<close> on the bridge stream
  (the cleaner's step takes it) unless the context is done. \<open>pickCtx\<close> decides a
  \<open>select\<close> with two ready cases.
\<close>

definition bridgeStep :: "bool \<Rightarrow> Service \<Rightarrow> Service" where
  "bridgeStep pickCtx s =
     (case bridge s of
        BNotStarted \<Rightarrow> s
      | BExited \<Rightarrow> s
      | BSelect \<Rightarrow>
          (let ready = (chan_offered (workerResultStream s) \<noteq> [] \<or> chan_closed (workerResultStream s))
           in if appCtxDone s \<and> (pickCtx \<or> \<not> ready) then bridgeExit s
              else (case chan_offered (workerResultStream s) of
                      c # cs \<Rightarrow> s\<lparr>bridge := BRange c,
                                  workerResultStream := (workerResultStream s)\<lparr>chan_offered := cs\<rparr>\<rparr>
                    | [] \<Rightarrow> if chan_closed (workerResultStream s) then bridgeExit s else s))
      | BRange c \<Rightarrow>
          (if length (jobs s) \<le> c then s
           else (case chan_offered (wr_value (jobs s ! c)) of
                   v # vs \<Rightarrow> (set_worker c (\<lambda>w. w\<lparr>wr_value := (wr_value w)\<lparr>chan_offered := vs\<rparr>\<rparr>) s)
                               \<lparr>bridge := BRelay c v\<rparr>
                 | [] \<Rightarrow> if chan_closed (wr_value (jobs s ! c)) then s\<lparr>bridge := BSelect\<rparr> else s))
      | BRelay c v \<Rightarrow>
          (if appCtxDone s \<and> (pickCtx \<or> cleaner s \<noteq> CSelect) then s\<lparr>bridge := BRange c\<rparr> else s))"

text \<open>One step of the cleaner: it leaves when the context is done or the bridge stream
  is closed, and deletes from \<open>workers\<close> the key it receives from the bridge.\<close>

definition cleanerStep :: "bool \<Rightarrow> Service \<Rightarrow> Service" where
  "cleanerStep pickCtx s =
     (case cleaner s of
        CNotStarted \<Rightarrow> s
      | CExited \<Rightarrow> s
      | CSelect \<Rightarrow>
          (case bridge s of
             BRelay c key \<Rightarrow>
               if appCtxDone s \<and> pickCtx then s\<lparr>cleaner := CExited\<rparr>
               else s\<lparr>workers := AList.delete key (workers s), bridge := BRange c\<rparr>
           | _ \<Rightarrow>
               if appCtxDone s \<or> chan_closed (workerWorkStream s) then s\<lparr>cleaner := CExited\<rparr>
               else s))"

section \<open>The running process\<close>

text \<open>
  What can happen in the process, one event at a time: a request to either endpoint,
  a step of a worker, of the bridge or of the cleaner, a tick of the sweep, the
  cancellation of the application's context, the clock moving on (never back). A call of
  \<open>GetImage\<close> that is still blocked changes nothing yet. A call of \<open>ProcessResizes\<close>
  is one event: no goroutine moves while the batch is processed.
\<close>

datatype event =
    Resizes ResizeRequest
  | Gets bool bool string
  | WorkerRuns nat
  | BridgeRuns bool
  | CleanerRuns bool
  | SweepTicks
  | Cancels
  | ClockAdvances int

definition step :: "'img env \<Rightarrow> event \<Rightarrow> Service \<Rightarrow> Service" where
  "step env e s =
     (case e of
        Resizes request \<Rightarrow> fst (ProcessResizes env request s)
      | Gets ctxDone pickCtx key \<Rightarrow>
          (case GetImage ctxDone pickCtx key s of Blocks \<Rightarrow> s | Returns r \<Rightarrow> fst r)
      | WorkerRuns j \<Rightarrow> workerStep env j s
      | BridgeRuns pickCtx \<Rightarrow> bridgeStep pickCtx s
      | CleanerRuns pickCtx \<Rightarrow> cleanerStep pickCtx s
      | SweepTicks \<Rightarrow> evictionTick s
      | Cancels \<Rightarrow> s\<lparr>appCtxDone := True\<rparr>
      | ClockAdvances d \<Rightarrow> (if d < 0 then s else s\<lparr>now := now s + d\<rparr>))"

definition run :: "'img env \<Rightarrow> event list \<Rightarrow> Service \<Rightarrow> Service" where
  "run env es s = fold (step env) es s"

section \<open>The resize handler (internal/resizers/handler.go)\<close>

record http_request =
  Method :: string
  RequestBody :: string
  Query :: "(string \<times> string list) list"

text \<open>What the handler writes: a status with a body, or the panic of \<open>v[0]\<close> on an
  empty slice.\<close>

datatype reply = Reply int string | Panics

definition asyncParamName :: string where "asyncParamName = ''async''"

text \<open>\<open>strconv.ParseBool\<close> of the Go standard library.\<close>

definition ParseBool :: "string \<Rightarrow> bool \<times> error option" where
  "ParseBool str =
     (if str \<in> set [''1'', ''t'', ''T'', ''TRUE'', ''true'', ''True''] then (True, None)
      else if str \<in> set [''0'', ''f'', ''F'', ''FALSE'', ''false'', ''False''] then (False, None)
      else (False, Some (Failure ''invalid syntax'')))"

text \<open>The first part of the handler of \<open>MakeResizeHandler\<close> (lines 31 to 57): the
  request it hands to \<open>ProcessResizes\<close>, or the reply it leaves with.\<close>

definition resizeRequestOf :: "'img env \<Rightarrow> http_request \<Rightarrow> reply + ResizeRequest" where
  "resizeRequestOf env r =
     (if Method r \<noteq> ''POST'' then Inl (Reply 404 ''Expecting POST request'')
      else (case json_Decode env (take (8 * 1024) (RequestBody r)) of
              Inl err \<Rightarrow> Inl (Reply 400 ''Failed to parse request'')
            | Inr (urls, width, height) \<Rightarrow>
                (let request = \<lparr>Async = False, URLs = urls, Width = width, Height = height\<rparr>
                 in case map_of (Query r) asyncParamName of
                      None \<Rightarrow> Inr request
                    | Some [] \<Rightarrow> Inl Panics
                    | Some (v0 # vs) \<Rightarrow> Inr (request\<lparr>Async := fst (ParseBool v0)\<rparr>))))"

definition MakeResizeHandler :: "'img env \<Rightarrow> http_request \<Rightarrow> Service \<Rightarrow> Service \<times> reply" where
  "MakeResizeHandler env r s =
     (case resizeRequestOf env r of
        Inl rep \<Rightarrow> (s, rep)
      | Inr request \<Rightarrow>
          (let res = ProcessResizes env request s
           in case snd (snd res) of
                Some err \<Rightarrow> (fst res, Reply 500 ''Failed to process request'')
              | None \<Rightarrow>
                  (case json_Marshal env (fst (snd res)) of
                     Inl err \<Rightarrow> (fst res, Reply 500 ''Failed to marshal response'')
                   | Inr data \<Rightarrow> (fst res, Reply 201 data))))"

section \<open>A concrete world for the examples\<close>

text \<open>
  An image is its bytes, the hash and the encoding keep only the length of the URL
  (so \<open>''a''\<close> and \<open>''bb''\<close> get different keys), every URL but \<open>''bad-url''\<close> answers 200
  with three bytes, and the cache has the 1024 entries of \<open>Application.Run\<close>.
\<close>

definition exampleEnv :: "byte list env" where
  "exampleEnv =
     \<lparr>sha256_Sum256 = (\<lambda>b. b),
      base64_EncodeToString = (\<lambda>b. replicate (length b) CHR ''x''),
      http_Get = (\<lambda>url. if url = ''bad-url'' then Inl ''no such host''
                         else Inr \<lparr>StatusCode = 200, Body = Inr [1, 2, 3]\<rparr>),
      jpeg_Decode = (\<lambda>data. Inr data),
      jpgresize_Resize = (\<lambda>w h img. img),
      jpeg_Encode = (\<lambda>img. Inr img),
      json_Decode = (\<lambda>body. if body = ''[a]'' then Inr ([''a''], 100, 100) else Inl ''bad json''),
      json_Marshal = (\<lambda>results. Inr ''[]'')\<rparr>"

definition exampleService :: Service where
  "exampleService = StartWorkerHandler (NewService \<lparr>lru_size = 1024, lru_items = []\<rparr>)"

definition keyA :: string where "keyA = ''/v1/image/x.jpeg''"

section \<open>Helpers for stating the properties\<close>

text \<open>The service after the first \<open>i\<close> URLs of a synchronous batch have been
  processed.\<close>

definition syncPrefix :: "'img env \<Rightarrow> ResizeRequest \<Rightarrow> Service \<Rightarrow> nat \<Rightarrow> Service" where
  "syncPrefix env request s i =
     fst (processResizesSync env (request\<lparr>URLs := take i (URLs request)\<rparr>) s)"

text \<open>The goroutine record \<open>newResizeWorker\<close> appends for a URL of an asynchronous
  batch.\<close>

definition newJob :: "'img env \<Rightarrow> ResizeRequest \<Rightarrow> string \<Rightarrow> worker" where
  "newJob env request url =
     \<lparr>w_request = \<lparr>dKey = genKey env url, dURL = url,
                   dWidth = Width request, dHeight = Height request\<rparr>,
      w_ctxDone = False, w_pc = WSpawned, wr_value = make_chan, wr_done = make_chan\<rparr>"

text \<open>Nothing is on offer on \<open>workerResultStream\<close> or on the \<open>value\<close> channel of any job,
  every job runs under a context that is not done, and the bridge is at its outer
  \<open>select\<close> or has left.\<close>

definition nothingSent :: "Service \<Rightarrow> bool" where
  "nothingSent s =
     (chan_offered (workerResultStream s) = [] \<and>
      list_all (\<lambda>w. chan_offered (wr_value w) = [] \<and> \<not> w_ctxDone w) (jobs s) \<and>
      (bridge s = BSelect \<or> bridge s = BExited))"

text \<open>Concrete requests and services for the examples.\<close>

definition keyB :: string where "keyB = ''/v1/image/xx.jpeg''"
definition keyBad :: string where "keyBad = ''/v1/image/xxxxxxx.jpeg''"

definition exampleSync :: ResizeRequest where
  "exampleSync = \<lparr>Async = False, URLs = [''a'', ''bad-url'', ''a''], Width = 100, Height = 100\<rparr>"

definition exampleAsync :: ResizeRequest where
  "exampleAsync = \<lparr>Async = True, URLs = [''a'', ''a''], Width = 100, Height = 100\<rparr>"

definition exampleAsyncBad :: ResizeRequest where
  "exampleAsyncBad = \<lparr>Async = True, URLs = [''bad-url''], Width = 100, Height = 100\<rparr>"

text \<open>After the synchronous batch: \<open>''a''\<close> is cached.\<close>

definition cachedService :: Service where
  "cachedService = fst (ProcessResizes exampleEnv exampleSync exampleService)"

text \<open>After the asynchronous batch: two workers for the key of \<open>''a''\<close>, none has run.\<close>

definition inFlightService :: Service where
  "inFlightService = run exampleEnv [Resizes exampleAsync] exampleService"

text \<open>After the asynchronous request for \<open>''bad-url''\<close>: one worker, not yet run.\<close>

definition failingService :: Service where
  "failingService = run exampleEnv [Resizes exampleAsyncBad] exampleService"

text \<open>\<open>''a''\<close> is cached at time 0 and \<open>''bb''\<close> ten seconds later; one more second
  passes.\<close>

definition agedService :: Service where
  "agedService = run exampleEnv
     [Resizes \<lparr>Async = False, URLs = [''a''], Width = 100, Height = 100\<rparr>,
      ClockAdvances (10 * second),
      Resizes \<lparr>Async = False, URLs = [''bb''], Width = 100, Height = 100\<rparr>,
      ClockAdvances (1 * second)]
     exampleService"

text \<open>A cache that holds something that is not a byte slice under the key of \<open>''a''\<close>.\<close>

definition oddService :: Service where
  "oddService = StartWorkerHandler (NewService \<lparr>lru_size = 1024, lru_items = [(keyA, StoredOther)]\<rparr>)"

definition invalidFlagRequest :: http_request where
  "invalidFlagRequest = \<lparr>Method = ''POST'', RequestBody = ''[a]'', Query = [(''async'', [''maybe''])]\<rparr>"

definition trueFlagRequest :: http_request where
  "trueFlagRequest = \<lparr>Method = ''POST'', RequestBody = ''[a]'', Query = [(''async'', [''true''])]\<rparr>"

definition noFlagRequest :: http_request where
  "noFlagRequest = \<lparr>Method = ''POST'', RequestBody = ''[a]'', Query = []\<rparr>"

section \<open>Evaluation\<close>

lemmas eval_defs = run_def step_def ProcessResizes_def processResizesAsync_def
  processResizesSync_def asyncStep_def syncStep_def resizeAndCache_def fetchAndResize_def
  fetch_def resize_def exampleEnv_def exampleService_def StartWorkerHandler_def NewService_def
  makeWorkerResizeImage_def newResizeWorker_def lru_Contains_def lru_Add_def lru_Get_def
  lru_Remove_def genKey_def genID_def bytes_of_string_def newURL_def proto_def hostport_def
  imageURLOutputPath_def jpegExtension_def success_def failure_def inProgress_def make_chan_def
  Let_def workerStep_def set_worker_def Close_def exampleSync_def exampleAsync_def
  exampleAsyncBad_def cachedService_def inFlightService_def failingService_def agedService_def
  oddService_def syncPrefix_def keyA_def keyB_def keyBad_def runWorker_def evictionTick_def
  evictEntry_def second_def GetImage_def waitIfImageIsStillInProgress_def doneClosed_def
  bridgeStep_def cleanerStep_def bridgeExit_def

lemma cachedService_eval:
  "cachedService =
     \<lparr>cache = \<lparr>lru_size = 1024, lru_items = [(keyA, StoredBytes [1, 2, 3])]\<rparr>,
      workerWorkStream = make_chan, workerResultStream = make_chan,
      workers = [], cacheDeadline = [(keyA, TimeValue 0)], jobs = [], bridge = BSelect,
      cleaner = CSelect, appCtxDone = False, now = 0, fetched = [''a'', ''bad-url'']\<rparr>"
  by (simp add: eval_defs)

lemma inFlightService_eval:
  "inFlightService =
     \<lparr>cache = \<lparr>lru_size = 1024, lru_items = []\<rparr>,
      workerWorkStream = make_chan, workerResultStream = make_chan,
      workers = [(keyA, WorkerResizeResult 1)], cacheDeadline = [],
      jobs = [newJob exampleEnv exampleAsync ''a'', newJob exampleEnv exampleAsync ''a''],
      bridge = BSelect, cleaner = CSelect, appCtxDone = False, now = 0, fetched = []\<rparr>"
  by (simp add: eval_defs newJob_def)

lemma failingService_eval:
  "failingService =
     \<lparr>cache = \<lparr>lru_size = 1024, lru_items = []\<rparr>,
      workerWorkStream = make_chan, workerResultStream = make_chan,
      workers = [(keyBad, WorkerResizeResult 0)], cacheDeadline = [],
      jobs = [newJob exampleEnv exampleAsyncBad ''bad-url''],
      bridge = BSelect, cleaner = CSelect, appCtxDone = False, now = 0, fetched = []\<rparr>"
  by (simp add: eval_defs newJob_def)

lemma agedService_eval:
  "agedService =
     \<lparr>cache = \<lparr>lru_size = 1024,
               lru_items = [(keyB, StoredBytes [1, 2, 3]), (keyA, StoredBytes [1, 2, 3])]\<rparr>,
      workerWorkStream = make_chan, workerResultStream = make_chan,
      workers = [], cacheDeadline = [(keyA, TimeValue 0), (keyB, TimeValue (10 * second))],
      jobs = [], bridge = BSelect, cleaner = CSelect, appCtxDone = False, now = 11 * second,
      fetched = [''a'', ''bb'']\<rparr>"
  by (simp add: eval_defs)

section \<open>The two loops of ProcessResizes\<close>

lemma upt_0_Suc_map: "[0..<Suc n] = 0 # map Suc [0..<n]"
  by (simp add: upt_conv_Cons map_Suc_upt del: upt_Suc)

text \<open>A loop that threads a state and appends one result per element: the \<open>i\<close>-th
  result is computed in the state reached after the first \<open>i\<close> elements.\<close>

lemma fold_with_results:
  assumes law: "\<And>u s rs. stp u (s, rs) = (f u s, rs @ [g u s])"
  shows "fold stp us (s, rs) =
           (fold f us s, rs @ map (\<lambda>i. g (us ! i) (fold f (take i us) s)) [0..<length us])"
proof (induction us arbitrary: s rs)
  case Nil
  show ?case by simp
next
  case (Cons u us)
  have "map (\<lambda>i. g ((u # us) ! i) (fold f (take i (u # us)) s)) [0..<length (u # us)] =
        g u s # map (\<lambda>i. g (us ! i) (fold f (take i us) (f u s))) [0..<length us]"
    by (simp add: upt_0_Suc_map comp_def del: upt_Suc)
  then show ?case
    using Cons.IH [of "f u s" "rs @ [g u s]"] law [of u s rs] by simp
qed

lemma ProcessResizes_async:
  "Async request \<Longrightarrow> ProcessResizes env request s = processResizesAsync env request s"
  by (simp add: ProcessResizes_def processResizesAsync_def Let_def)

lemma ProcessResizes_sync:
  "\<not> Async request \<Longrightarrow> ProcessResizes env request s = processResizesSync env request s"
  by (simp add: ProcessResizes_def processResizesSync_def Let_def)

subsection \<open>The synchronous loop\<close>

lemma syncStep_law:
  "syncStep env rq u (s, rs) =
     (fst (syncStep env rq u (s, [])), rs @ [hd (snd (syncStep env rq u (s, [])))])"
  by (simp add: syncStep_def Let_def split: option.splits)

lemma sync_fold:
  "fold (syncStep env rq) us (s, []) =
     (fold (\<lambda>u s. fst (syncStep env rq u (s, []))) us s,
      map (\<lambda>i. hd (snd (syncStep env rq (us ! i)
                 (fold (\<lambda>u s. fst (syncStep env rq u (s, []))) (take i us) s, []))))
          [0..<length us])"
proof -
  have "fold (syncStep env rq) us (s, []) =
     (fold (\<lambda>u s. fst (syncStep env rq u (s, []))) us s,
      [] @ map (\<lambda>i. hd (snd (syncStep env rq (us ! i)
                 (fold (\<lambda>u s. fst (syncStep env rq u (s, []))) (take i us) s, []))))
          [0..<length us])"
    by (rule fold_with_results) (rule syncStep_law)
  then show ?thesis by simp
qed

lemma syncStep_rq: "syncStep env (rq\<lparr>URLs := us\<rparr>) = syncStep env rq"
  by (rule ext, rule ext) (simp add: syncStep_def Let_def)

lemma syncPrefix_fold:
  "syncPrefix env rq s i = fold (\<lambda>u s. fst (syncStep env rq u (s, []))) (take i (URLs rq)) s"
  by (simp add: syncPrefix_def processResizesSync_def Let_def sync_fold syncStep_rq)

lemma sync_results:
  "processResizesSync env rq s =
     (syncPrefix env rq s (length (URLs rq)),
      map (\<lambda>i. hd (snd (syncStep env rq (URLs rq ! i) (syncPrefix env rq s i, []))))
          [0..<length (URLs rq)],
      None)"
  by (simp add: processResizesSync_def Let_def sync_fold syncPrefix_fold)

lemma syncPrefix_Suc:
  "i < length (URLs rq) \<Longrightarrow>
   syncPrefix env rq s (Suc i) = fst (syncStep env rq (URLs rq ! i) (syncPrefix env rq s i, []))"
  by (simp add: syncPrefix_fold take_Suc_conv_app_nth)

lemma resizeAndCache_fail:
  "fetchAndResize env d = Inl e \<Longrightarrow>
   resizeAndCache env d s =
     (s\<lparr>fetched := fetched s @ [dURL d]\<rparr>, Some (Wrapf ''unable to resize'' e))"
  by (simp add: resizeAndCache_def Let_def)

lemma resizeAndCache_ok:
  "fetchAndResize env d = Inr bytes \<Longrightarrow>
   resizeAndCache env d s =
     (s\<lparr>fetched := fetched s @ [dURL d],
        cache := fst (lru_Add (cache s) (dKey d) (StoredBytes bytes)),
        cacheDeadline := AList.update (dKey d) (TimeValue (now s)) (cacheDeadline s)\<rparr>, None)"
  by (simp add: resizeAndCache_def Let_def)

lemma resizeAndCache_fetched:
  "fetched (fst (resizeAndCache env d s)) = fetched s @ [dURL d]"
  by (simp add: resizeAndCache_def Let_def split: sum.splits)

lemma resizeAndCache_jobs: "jobs (fst (resizeAndCache env d s)) = jobs s"
  by (simp add: resizeAndCache_def Let_def split: sum.splits)

lemma resizeAndCache_workers: "workers (fst (resizeAndCache env d s)) = workers s"
  by (simp add: resizeAndCache_def Let_def split: sum.splits)

lemma lru_Add_size: "lru_size (fst (lru_Add c k v)) = lru_size c"
  by (simp add: lru_Add_def Let_def)

lemma lru_Add_present:
  "0 < lru_size c \<Longrightarrow> map_of (lru_items (fst (lru_Add c k v))) k = Some v"
  by (cases "lru_items c") (auto simp add: lru_Add_def Let_def)

lemma syncStep_lru_size:
  "lru_size (cache (fst (syncStep env rq u (s, [])))) = lru_size (cache s)"
  by (simp add: syncStep_def resizeAndCache_def Let_def lru_Add_size split: option.splits sum.splits)

lemma sync_lru_size:
  "lru_size (cache (fold (\<lambda>u s. fst (syncStep env rq u (s, []))) us s)) = lru_size (cache s)"
  by (induction us arbitrary: s) (simp_all add: syncStep_lru_size)

text \<open>
  C6. A synchronous request gets no batch-level error and exactly one result per URL, in
  the order of the URLs (so an empty list gives an empty result). The \<open>i\<close>-th result is
  decided in the service as the first \<open>i\<close> URLs left it: when the key is cached there
  it is \<open>success\<close> with \<open>cached: true\<close> and the servable URL, and nothing changes;
  otherwise the URL is fetched and transformed, and either that fails, the result is
  \<open>failure\<close> with no URL and the cache and the timestamp table stay as they were, or
  it succeeds, the result is \<open>success\<close> with \<open>cached: false\<close> and the servable URL,
  the bytes are added to the cache (and are in it, the cache having room for one
  entry at least) and the time is recorded. The loop goes on to the next URL in
  every case.
\<close>

theorem sync_one_result_per_url:
  assumes "\<not> Async request"
  shows "snd (snd (ProcessResizes env request s)) = None \<and>
   length (fst (snd (ProcessResizes env request s))) = length (URLs request) \<and>
   fst (ProcessResizes env request s) = syncPrefix env request s (length (URLs request)) \<and>
   (\<forall>i < length (URLs request).
      let url = URLs request ! i;
          key = genKey env url;
          before = syncPrefix env request s i;
          after = syncPrefix env request s (Suc i);
          result = fst (snd (ProcessResizes env request s)) ! i
      in if lru_Contains (cache before) key
         then result = \<lparr>Result = success, URL = newURL key, Cached = True\<rparr> \<and> after = before
         else (case fetchAndResize env \<lparr>dKey = key, dURL = url,
                      dWidth = Width request, dHeight = Height request\<rparr> of
                 Inl err \<Rightarrow>
                   result = \<lparr>Result = failure, URL = [], Cached = False\<rparr> \<and>
                   cache after = cache before \<and> cacheDeadline after = cacheDeadline before
               | Inr bytes \<Rightarrow>
                   result = \<lparr>Result = success, URL = newURL key, Cached = False\<rparr> \<and>
                   cache after = fst (lru_Add (cache before) key (StoredBytes bytes)) \<and>
                   (0 < lru_size (cache s) \<longrightarrow>
                      map_of (lru_items (cache after)) key = Some (StoredBytes bytes)) \<and>
                   map_of (cacheDeadline after) key = Some (TimeValue (now before))))"
proof (intro conjI allI impI)
  have P: "ProcessResizes env request s = processResizesSync env request s"
    using assms by (rule ProcessResizes_sync)
  show "snd (snd (ProcessResizes env request s)) = None"
    by (simp add: P sync_results)
  show "length (fst (snd (ProcessResizes env request s))) = length (URLs request)"
    by (simp add: P sync_results)
  show "fst (ProcessResizes env request s) = syncPrefix env request s (length (URLs request))"
    by (simp add: P sync_results)
  fix i assume i: "i < length (URLs request)"
  let ?b = "syncPrefix env request s i"
  let ?u = "URLs request ! i"
  let ?d = "\<lparr>dKey = genKey env ?u, dURL = ?u, dWidth = Width request, dHeight = Height request\<rparr>"
  have r: "fst (snd (ProcessResizes env request s)) ! i =
           hd (snd (syncStep env request ?u (?b, [])))"
    using i by (simp add: P sync_results)
  have a: "syncPrefix env request s (Suc i) = fst (syncStep env request ?u (?b, []))"
    using i by (rule syncPrefix_Suc)
  have sz: "lru_size (cache ?b) = lru_size (cache s)"
    by (simp add: syncPrefix_fold sync_lru_size)
  show "let url = URLs request ! i;
          key = genKey env url;
          before = syncPrefix env request s i;
          after = syncPrefix env request s (Suc i);
          result = fst (snd (ProcessResizes env request s)) ! i
      in if lru_Contains (cache before) key
         then result = \<lparr>Result = success, URL = newURL key, Cached = True\<rparr> \<and> after = before
         else (case fetchAndResize env \<lparr>dKey = key, dURL = url,
                      dWidth = Width request, dHeight = Height request\<rparr> of
                 Inl err \<Rightarrow>
                   result = \<lparr>Result = failure, URL = [], Cached = False\<rparr> \<and>
                   cache after = cache before \<and> cacheDeadline after = cacheDeadline before
               | Inr bytes \<Rightarrow>
                   result = \<lparr>Result = success, URL = newURL key, Cached = False\<rparr> \<and>
                   cache after = fst (lru_Add (cache before) key (StoredBytes bytes)) \<and>
                   (0 < lru_size (cache s) \<longrightarrow>
                      map_of (lru_items (cache after)) key = Some (StoredBytes bytes)) \<and>
                   map_of (cacheDeadline after) key = Some (TimeValue (now before)))"
  proof (cases "fetchAndResize env ?d")
    case (Inl e)
    show ?thesis
      unfolding Let_def r a
      using Inl by (simp add: syncStep_def Let_def resizeAndCache_fail)
  next
    case (Inr bytes)
    show ?thesis
      unfolding Let_def r a
      using Inr sz
      by (simp add: syncStep_def Let_def resizeAndCache_ok update_conv' lru_Add_present)
  qed
qed

theorem sync_one_result_per_url_witness:
  "\<not> Async exampleSync \<and>
   snd (snd (ProcessResizes exampleEnv exampleSync exampleService)) = None \<and>
   length (fst (snd (ProcessResizes exampleEnv exampleSync exampleService))) = 3 \<and>
   (1::nat) < length (URLs exampleSync) \<and>
   \<not> lru_Contains (cache (syncPrefix exampleEnv exampleSync exampleService 1))
       (genKey exampleEnv (URLs exampleSync ! 1)) \<and>
   fst (snd (ProcessResizes exampleEnv exampleSync exampleService)) ! 1 =
     \<lparr>Result = failure, URL = [], Cached = False\<rparr> \<and>
   cache (syncPrefix exampleEnv exampleSync exampleService 2) =
     cache (syncPrefix exampleEnv exampleSync exampleService 1) \<and>
   (2::nat) < length (URLs exampleSync) \<and>
   lru_Contains (cache (syncPrefix exampleEnv exampleSync exampleService 2))
       (genKey exampleEnv (URLs exampleSync ! 2)) \<and>
   fst (snd (ProcessResizes exampleEnv exampleSync exampleService)) ! 2 =
     \<lparr>Result = success, URL = ''http://localhost:8080/v1/image/x.jpeg'', Cached = True\<rparr>"
proof -
  have h: "\<not> Async exampleSync" by (simp add: exampleSync_def)
  show ?thesis
    using h sync_one_result_per_url [OF h, of exampleEnv exampleService]
    by (simp add: eval_defs)
qed

subsection \<open>The asynchronous loop\<close>

lemma asyncStep_law:
  "asyncStep env rq u (s, rs) =
     (fst (asyncStep env rq u (s, [])), rs @ [hd (snd (asyncStep env rq u (s, [])))])"
  by (simp add: asyncStep_def Let_def)

lemma async_fold:
  "fold (asyncStep env rq) us (s, []) =
     (fold (\<lambda>u s. fst (asyncStep env rq u (s, []))) us s,
      map (\<lambda>i. hd (snd (asyncStep env rq (us ! i)
                 (fold (\<lambda>u s. fst (asyncStep env rq u (s, []))) (take i us) s, []))))
          [0..<length us])"
proof -
  have "fold (asyncStep env rq) us (s, []) =
     (fold (\<lambda>u s. fst (asyncStep env rq u (s, []))) us s,
      [] @ map (\<lambda>i. hd (snd (asyncStep env rq (us ! i)
                 (fold (\<lambda>u s. fst (asyncStep env rq u (s, []))) (take i us) s, []))))
          [0..<length us])"
    by (rule fold_with_results) (rule asyncStep_law)
  then show ?thesis by simp
qed

lemma asyncStep_cached:
  "lru_Contains (cache s) (genKey env u) \<Longrightarrow>
   asyncStep env rq u (s, rs) = (s, rs @ [\<lparr>Result = success, URL = newURL (genKey env u), Cached = True\<rparr>])"
  by (simp add: asyncStep_def Let_def)

lemma asyncStep_uncached:
  "\<not> lru_Contains (cache s) (genKey env u) \<Longrightarrow>
   asyncStep env rq u (s, rs) =
     (s\<lparr>jobs := jobs s @ [\<lparr>w_request = \<lparr>dKey = genKey env u, dURL = u, dWidth = Width rq, dHeight = Height rq\<rparr>,
                            w_ctxDone = False, w_pc = WSpawned, wr_value = make_chan, wr_done = make_chan\<rparr>],
        workers := AList.update (genKey env u) (WorkerResizeResult (length (jobs s))) (workers s)\<rparr>,
      rs @ [\<lparr>Result = inProgress, URL = newURL (genKey env u), Cached = False\<rparr>])"
  by (simp add: asyncStep_def Let_def makeWorkerResizeImage_def newResizeWorker_def)


lemma asyncStep_fst_cached:
  "lru_Contains (cache s) (genKey env u) \<Longrightarrow> fst (asyncStep env rq u (s, [])) = s"
  by (simp add: asyncStep_cached)

lemma asyncStep_fst_uncached:
  "\<not> lru_Contains (cache s) (genKey env u) \<Longrightarrow>
   fst (asyncStep env rq u (s, [])) =
     s\<lparr>jobs := jobs s @ [newJob env rq u],
       workers := AList.update (genKey env u) (WorkerResizeResult (length (jobs s))) (workers s)\<rparr>"
  by (simp add: asyncStep_uncached newJob_def)

lemma async_frame:
  "fold (\<lambda>u s. fst (asyncStep env rq u (s, []))) us s =
     s\<lparr>jobs := jobs (fold (\<lambda>u s. fst (asyncStep env rq u (s, []))) us s),
       workers := workers (fold (\<lambda>u s. fst (asyncStep env rq u (s, []))) us s)\<rparr>"
proof (induction us arbitrary: s)
  case Nil
  show ?case by simp
next
  case (Cons u us)
  show ?case
  proof (cases "lru_Contains (cache s) (genKey env u)")
    case True
    then show ?thesis using Cons.IH [of s] by (simp add: asyncStep_fst_cached)
  next
    case False
    let ?s1 = "s\<lparr>jobs := jobs s @ [newJob env rq u],
       workers := AList.update (genKey env u) (WorkerResizeResult (length (jobs s))) (workers s)\<rparr>"
    have "fold (\<lambda>u s. fst (asyncStep env rq u (s, []))) (u # us) s =
          fold (\<lambda>u s. fst (asyncStep env rq u (s, []))) us ?s1"
      using False by (simp add: asyncStep_fst_uncached)
    moreover have "fold (\<lambda>u s. fst (asyncStep env rq u (s, []))) us ?s1 =
       ?s1\<lparr>jobs := jobs (fold (\<lambda>u s. fst (asyncStep env rq u (s, []))) us ?s1),
           workers := workers (fold (\<lambda>u s. fst (asyncStep env rq u (s, []))) us ?s1)\<rparr>"
      by (rule Cons.IH)
    ultimately show ?thesis by simp
  qed
qed

lemma async_cache:
  "cache (fold (\<lambda>u s. fst (asyncStep env rq u (s, []))) us s) = cache s"
  by (subst async_frame) simp

lemma async_jobs:
  "jobs (fold (\<lambda>u s. fst (asyncStep env rq u (s, []))) us s) =
     jobs s @ map (newJob env rq) (filter (\<lambda>u. \<not> lru_Contains (cache s) (genKey env u)) us)"
proof (induction us arbitrary: s)
  case Nil
  show ?case by simp
next
  case (Cons u us)
  show ?case
  proof (cases "lru_Contains (cache s) (genKey env u)")
    case True
    then show ?thesis using Cons.IH [of s] by (simp add: asyncStep_fst_cached)
  next
    case False
    then show ?thesis
      using Cons.IH [of "s\<lparr>jobs := jobs s @ [newJob env rq u],
         workers := AList.update (genKey env u) (WorkerResizeResult (length (jobs s))) (workers s)\<rparr>"]
      by (simp add: asyncStep_fst_uncached)
  qed
qed

lemma async_workers_cached:
  "lru_Contains (cache s) k \<Longrightarrow>
   map_of (workers (fold (\<lambda>u s. fst (asyncStep env rq u (s, []))) us s)) k = map_of (workers s) k"
proof (induction us arbitrary: s)
  case Nil
  show ?case by simp
next
  case (Cons u us)
  show ?case
  proof (cases "lru_Contains (cache s) (genKey env u)")
    case True
    then show ?thesis using Cons.IH [of s] Cons.prems by (simp add: asyncStep_fst_cached)
  next
    case False
    then have ne: "genKey env u \<noteq> k" using Cons.prems by auto
    show ?thesis
      using False ne Cons.prems Cons.IH [of "s\<lparr>jobs := jobs s @ [newJob env rq u],
         workers := AList.update (genKey env u) (WorkerResizeResult (length (jobs s))) (workers s)\<rparr>"]
      by (simp add: asyncStep_fst_uncached update_conv')
  qed
qed

lemma async_workers_distinct:
  "distinct (map fst (workers s)) \<Longrightarrow>
   distinct (map fst (workers (fold (\<lambda>u s. fst (asyncStep env rq u (s, []))) us s)))"
proof (induction us arbitrary: s)
  case Nil
  then show ?case by simp
next
  case (Cons u us)
  show ?case
  proof (cases "lru_Contains (cache s) (genKey env u)")
    case True
    then show ?thesis using Cons.IH [of s] Cons.prems by (simp add: asyncStep_fst_cached)
  next
    case False
    show ?thesis
      using False Cons.prems Cons.IH [of "s\<lparr>jobs := jobs s @ [newJob env rq u],
         workers := AList.update (genKey env u) (WorkerResizeResult (length (jobs s))) (workers s)\<rparr>"]
      by (simp add: asyncStep_fst_uncached distinct_update)
  qed
qed

lemma async_workers_uncached:
  "u \<in> set us \<Longrightarrow> \<not> lru_Contains (cache s) (genKey env u) \<Longrightarrow>
   \<exists>j u'. length (jobs s) \<le> j \<and>
     j < length (jobs (fold (\<lambda>u s. fst (asyncStep env rq u (s, []))) us s)) \<and>
     map_of (workers (fold (\<lambda>u s. fst (asyncStep env rq u (s, []))) us s)) (genKey env u) =
       Some (WorkerResizeResult j) \<and>
     jobs (fold (\<lambda>u s. fst (asyncStep env rq u (s, []))) us s) ! j = newJob env rq u' \<and>
     genKey env u' = genKey env u"
proof (induction us rule: rev_induct)
  case Nil
  then show ?case by simp
next
  case (snoc v us)
  let ?A = "fold (\<lambda>u s. fst (asyncStep env rq u (s, []))) us s"
  have cA: "cache ?A = cache s" by (rule async_cache)
  have le: "length (jobs s) \<le> length (jobs ?A)" by (simp add: async_jobs)
  show ?case
  proof (cases "lru_Contains (cache s) (genKey env v)")
    case True
    then have vu: "v \<noteq> u" using snoc.prems by auto
    then have "u \<in> set us" using snoc.prems by simp
    then show ?thesis using snoc.IH snoc.prems True cA by (simp add: asyncStep_fst_cached)
  next
    case False
    have st: "fold (\<lambda>u s. fst (asyncStep env rq u (s, []))) (us @ [v]) s =
        ?A\<lparr>jobs := jobs ?A @ [newJob env rq v],
           workers := AList.update (genKey env v) (WorkerResizeResult (length (jobs ?A))) (workers ?A)\<rparr>"
      using False cA by (simp add: asyncStep_fst_uncached)
    show ?thesis
    proof (cases "genKey env v = genKey env u")
      case True
      show ?thesis
        unfolding st using True le
        by (intro exI [of _ "length (jobs ?A)"] exI [of _ v]) (simp add: update_conv')
    next
      case ne: False
      then have "u \<in> set us" using snoc.prems by auto
      then obtain j u' where j: "length (jobs s) \<le> j" "j < length (jobs ?A)"
          "map_of (workers ?A) (genKey env u) = Some (WorkerResizeResult j)"
          "jobs ?A ! j = newJob env rq u'" "genKey env u' = genKey env u"
        using snoc.IH snoc.prems by blast
      show ?thesis
        unfolding st using j ne
        by (intro exI [of _ j] exI [of _ u']) (simp add: update_conv' nth_append)
    qed
  qed
qed

lemma async_results:
  "processResizesAsync env rq s =
     (fold (\<lambda>u s. fst (asyncStep env rq u (s, []))) (URLs rq) s,
      map (\<lambda>i. hd (snd (asyncStep env rq (URLs rq ! i)
                 (fold (\<lambda>u s. fst (asyncStep env rq u (s, []))) (take i (URLs rq)) s, []))))
          [0..<length (URLs rq)],
      None)"
  by (simp add: processResizesAsync_def Let_def async_fold)

lemma async_fixed:
  "\<forall>u \<in> set us. lru_Contains (cache s) (genKey env u) \<Longrightarrow>
   fold (\<lambda>u s. fst (asyncStep env rq u (s, []))) us s = s"
  by (induction us) (simp_all add: asyncStep_fst_cached)

lemma workerStep_spawned:
  "j < length (jobs s) \<Longrightarrow> w_pc (jobs s ! j) = WSpawned \<Longrightarrow> \<not> w_ctxDone (jobs s ! j) \<Longrightarrow>
   workerStep env j s =
     set_worker j (\<lambda>w. w\<lparr>w_pc := WResized\<rparr>) (fst (resizeAndCache env (w_request (jobs s ! j)) s))"
  by (simp add: workerStep_def Let_def)

text \<open>
  C7. An asynchronous request for a key that is already cached: the result for that URL
  is \<open>success\<close> with \<open>cached: true\<close> and the servable URL, the registry entry of the key is
  what it was (none is created), and none of the workers the call dispatches is for
  that key. When every URL of the batch is cached the call leaves the service exactly
  as it was, so repeating it changes nothing.
\<close>

theorem async_cached_idempotent:
  assumes "Async request"
  shows "(\<forall>i < length (URLs request).
            lru_Contains (cache s) (genKey env (URLs request ! i)) \<longrightarrow>
              fst (snd (ProcessResizes env request s)) ! i =
                \<lparr>Result = success, URL = newURL (genKey env (URLs request ! i)), Cached = True\<rparr> \<and>
              map_of (workers (fst (ProcessResizes env request s))) (genKey env (URLs request ! i)) =
                map_of (workers s) (genKey env (URLs request ! i)) \<and>
              (\<forall>w \<in> set (drop (length (jobs s)) (jobs (fst (ProcessResizes env request s)))).
                 dKey (w_request w) \<noteq> genKey env (URLs request ! i))) \<and>
         ((\<forall>u \<in> set (URLs request). lru_Contains (cache s) (genKey env u)) \<longrightarrow>
            fst (ProcessResizes env request s) = s)"
proof (intro conjI allI impI)
  fix i
  assume i: "i < length (URLs request)"
    and c: "lru_Contains (cache s) (genKey env (URLs request ! i))"
  let ?k = "genKey env (URLs request ! i)"
  let ?b = "fold (\<lambda>u s. fst (asyncStep env request u (s, []))) (take i (URLs request)) s"
  have "lru_Contains (cache ?b) ?k" using c by (simp add: async_cache)
  then have "hd (snd (asyncStep env request (URLs request ! i) (?b, []))) =
      \<lparr>Result = success, URL = newURL ?k, Cached = True\<rparr>"
    by (simp add: asyncStep_cached)
  then show "fst (snd (ProcessResizes env request s)) ! i =
      \<lparr>Result = success, URL = newURL ?k, Cached = True\<rparr>"
    using i assms by (simp add: ProcessResizes_async async_results)
  show "map_of (workers (fst (ProcessResizes env request s))) ?k = map_of (workers s) ?k"
    using c assms by (simp add: ProcessResizes_async async_results async_workers_cached)
  show "\<forall>w \<in> set (drop (length (jobs s)) (jobs (fst (ProcessResizes env request s)))).
          dKey (w_request w) \<noteq> ?k"
    using c assms by (auto simp add: ProcessResizes_async async_results async_jobs newJob_def)
next
  assume "\<forall>u \<in> set (URLs request). lru_Contains (cache s) (genKey env u)"
  then show "fst (ProcessResizes env request s) = s"
    using assms by (simp add: ProcessResizes_async async_results async_fixed)
qed

theorem async_cached_idempotent_witness:
  "Async exampleAsync \<and> (0::nat) < length (URLs exampleAsync) \<and>
   lru_Contains (cache cachedService) (genKey exampleEnv (URLs exampleAsync ! 0)) \<and>
   fst (snd (ProcessResizes exampleEnv exampleAsync cachedService)) ! 0 =
     \<lparr>Result = success, URL = newURL (genKey exampleEnv (URLs exampleAsync ! 0)), Cached = True\<rparr> \<and>
   map_of (workers (fst (ProcessResizes exampleEnv exampleAsync cachedService)))
     (genKey exampleEnv (URLs exampleAsync ! 0)) = None \<and>
   fst (ProcessResizes exampleEnv exampleAsync cachedService) = cachedService"
proof -
  have a: "Async exampleAsync" by (simp add: exampleAsync_def)
  have c: "\<forall>u \<in> set (URLs exampleAsync). lru_Contains (cache cachedService) (genKey exampleEnv u)"
    by (simp add: cachedService_eval) (simp add: eval_defs)
  have l: "(0::nat) < length (URLs exampleAsync)" by (simp add: exampleAsync_def)
  have c0: "lru_Contains (cache cachedService) (genKey exampleEnv (URLs exampleAsync ! 0))"
    using c l by simp
  have w: "map_of (workers cachedService) (genKey exampleEnv (URLs exampleAsync ! 0)) = None"
    by (simp add: cachedService_eval)
  show ?thesis
    using a l c c0 w async_cached_idempotent [OF a, of cachedService exampleEnv] by simp
qed

text \<open>
  C1, as the code has it. \<open>processResizesAsync\<close> never looks at the registry: a batch
  dispatches one new worker for every URL in it whose key is not cached, duplicates
  included, and leaves the earlier workers as they are. The registry keeps one entry
  per key: each uncached key of the batch ends up naming one of the new workers for
  that key (a later \<open>Store\<close> replaces the earlier entry). Every new worker starts at
  the beginning of its goroutine, and its first step does its own fetch.
\<close>

theorem async_dispatches_per_uncached_url:
  assumes "Async request"
  shows "length (jobs (fst (ProcessResizes env request s))) =
           length (jobs s) +
           length (filter (\<lambda>u. \<not> lru_Contains (cache s) (genKey env u)) (URLs request)) \<and>
         take (length (jobs s)) (jobs (fst (ProcessResizes env request s))) = jobs s \<and>
         (distinct (map fst (workers s)) \<longrightarrow>
            distinct (map fst (workers (fst (ProcessResizes env request s))))) \<and>
         (\<forall>u \<in> set (URLs request). \<not> lru_Contains (cache s) (genKey env u) \<longrightarrow>
            (\<exists>j. length (jobs s) \<le> j \<and> j < length (jobs (fst (ProcessResizes env request s))) \<and>
                 map_of (workers (fst (ProcessResizes env request s))) (genKey env u) =
                   Some (WorkerResizeResult j) \<and>
                 dKey (w_request (jobs (fst (ProcessResizes env request s)) ! j)) = genKey env u)) \<and>
         (\<forall>j. length (jobs s) \<le> j \<and> j < length (jobs (fst (ProcessResizes env request s))) \<longrightarrow>
            w_pc (jobs (fst (ProcessResizes env request s)) ! j) = WSpawned \<and>
            fetched (workerStep env j (fst (ProcessResizes env request s))) =
              fetched (fst (ProcessResizes env request s)) @
                [dURL (w_request (jobs (fst (ProcessResizes env request s)) ! j))])"
proof -
  let ?A = "fold (\<lambda>u s. fst (asyncStep env request u (s, []))) (URLs request) s"
  have A: "fst (ProcessResizes env request s) = ?A"
    using assms by (simp add: ProcessResizes_async async_results)
  have 1: "length (jobs ?A) = length (jobs s) +
           length (filter (\<lambda>u. \<not> lru_Contains (cache s) (genKey env u)) (URLs request))"
    by (simp add: async_jobs)
  have 2: "take (length (jobs s)) (jobs ?A) = jobs s" by (simp add: async_jobs)
  have 3: "distinct (map fst (workers s)) \<longrightarrow> distinct (map fst (workers ?A))"
    by (simp add: async_workers_distinct)
  have 4: "\<forall>u \<in> set (URLs request). \<not> lru_Contains (cache s) (genKey env u) \<longrightarrow>
            (\<exists>j. length (jobs s) \<le> j \<and> j < length (jobs ?A) \<and>
                 map_of (workers ?A) (genKey env u) = Some (WorkerResizeResult j) \<and>
                 dKey (w_request (jobs ?A ! j)) = genKey env u)"
  proof (intro ballI impI)
    fix u assume "u \<in> set (URLs request)" "\<not> lru_Contains (cache s) (genKey env u)"
    then obtain j u' where "length (jobs s) \<le> j" "j < length (jobs ?A)"
        "map_of (workers ?A) (genKey env u) = Some (WorkerResizeResult j)"
        "jobs ?A ! j = newJob env request u'" "genKey env u' = genKey env u"
      using async_workers_uncached [of u "URLs request" s env request] by blast
    then show "\<exists>j. length (jobs s) \<le> j \<and> j < length (jobs ?A) \<and>
                 map_of (workers ?A) (genKey env u) = Some (WorkerResizeResult j) \<and>
                 dKey (w_request (jobs ?A ! j)) = genKey env u"
      by (intro exI [of _ j]) (simp add: newJob_def)
  qed
  have 5: "\<forall>j. length (jobs s) \<le> j \<and> j < length (jobs ?A) \<longrightarrow>
            w_pc (jobs ?A ! j) = WSpawned \<and>
            fetched (workerStep env j ?A) = fetched ?A @ [dURL (w_request (jobs ?A ! j))]"
  proof (intro allI impI)
    fix j assume j: "length (jobs s) \<le> j \<and> j < length (jobs ?A)"
    let ?new = "map (newJob env request)
        (filter (\<lambda>u. \<not> lru_Contains (cache s) (genKey env u)) (URLs request))"
    have "jobs ?A ! j = ?new ! (j - length (jobs s))"
      using j by (simp add: async_jobs nth_append)
    moreover have "j - length (jobs s) < length ?new" using j by (auto simp add: async_jobs)
    ultimately have "jobs ?A ! j \<in> set ?new" by (metis nth_mem)
    then have p: "w_pc (jobs ?A ! j) = WSpawned" "\<not> w_ctxDone (jobs ?A ! j)"
      by (auto simp add: newJob_def)
    have "workerStep env j ?A =
       set_worker j (\<lambda>w. w\<lparr>w_pc := WResized\<rparr>) (fst (resizeAndCache env (w_request (jobs ?A ! j)) ?A))"
      using j p by (intro workerStep_spawned) simp_all
    then show "w_pc (jobs ?A ! j) = WSpawned \<and>
            fetched (workerStep env j ?A) = fetched ?A @ [dURL (w_request (jobs ?A ! j))]"
      using p by (simp add: set_worker_def resizeAndCache_fetched)
  qed
  show ?thesis unfolding A using 1 2 3 4 5 by blast
qed

theorem async_dispatches_per_uncached_url_witness:
  "Async exampleAsync \<and>
   distinct (map fst (workers exampleService)) \<and>
   ''a'' \<in> set (URLs exampleAsync) \<and>
   \<not> lru_Contains (cache exampleService) (genKey exampleEnv ''a'') \<and>
   length (jobs (fst (ProcessResizes exampleEnv exampleAsync exampleService))) =
     length (jobs exampleService) + 2 \<and>
   distinct (map fst (workers (fst (ProcessResizes exampleEnv exampleAsync exampleService)))) \<and>
   length (jobs exampleService) \<le> 1 \<and>
   1 < length (jobs (fst (ProcessResizes exampleEnv exampleAsync exampleService))) \<and>
   w_pc (jobs (fst (ProcessResizes exampleEnv exampleAsync exampleService)) ! 1) = WSpawned \<and>
   fetched (workerStep exampleEnv 1 (fst (ProcessResizes exampleEnv exampleAsync exampleService))) =
     [''a'']"
proof -
  have a: "Async exampleAsync" by (simp add: exampleAsync_def)
  show ?thesis
    using a async_dispatches_per_uncached_url [OF a, of exampleEnv exampleService]
    by (simp add: eval_defs)
qed

text \<open>
  C1, as the claim states it, fails: one asynchronous batch with the URL \<open>''a''\<close> twice,
  on a service with an empty cache, leaves two workers for the same key in flight at
  once, and running both fetches \<open>''a''\<close> twice.
\<close>

theorem duplicate_url_two_workers:
  "length (jobs inFlightService) = 2 \<and>
   dKey (w_request (jobs inFlightService ! 0)) = keyA \<and>
   dKey (w_request (jobs inFlightService ! 1)) = keyA \<and>
   w_pc (jobs inFlightService ! 0) = WSpawned \<and>
   w_pc (jobs inFlightService ! 1) = WSpawned \<and>
   fetched (run exampleEnv [WorkerRuns 0, WorkerRuns 1] inFlightService) = [''a'', ''a'']"
  by (simp add: inFlightService_eval) (simp add: eval_defs newJob_def)

section \<open>GetImage\<close>

lemma wait_returns:
  "waitIfImageIsStillInProgress ctxDone pickCtx key s = Returns err \<Longrightarrow>
   err = None \<or> (err = Some ErrContextCancelled \<and> ctxDone \<and>
      (\<exists>j. map_of (workers s) key = Some (WorkerResizeResult j)))"
  by (auto simp add: waitIfImageIsStillInProgress_def
      split: option.splits worker_value.splits if_splits)

lemma GetImage_error:
  assumes "GetImage ctxDone pickCtx key s = Returns (s', data, Some e)"
  shows "e = ErrContextCancelled \<and> ctxDone \<and> data = None \<and> s' = s \<and>
         (\<exists>j. map_of (workers s) key = Some (WorkerResizeResult j))"
proof -
  obtain err where w: "waitIfImageIsStillInProgress ctxDone pickCtx key s = Returns err"
    using assms
    by (cases "waitIfImageIsStillInProgress ctxDone pickCtx key s") (simp_all add: GetImage_def)
  from wait_returns [OF w] show ?thesis
  proof
    assume "err = None"
    then show ?thesis using assms w
      by (simp add: GetImage_def Let_def split: option.splits stored.splits)
  next
    assume "err = Some ErrContextCancelled \<and> ctxDone \<and>
      (\<exists>j. map_of (workers s) key = Some (WorkerResizeResult j))"
    then show ?thesis using assms w by (auto simp add: GetImage_def)
  qed
qed

text \<open>
  C4. \<open>GetImage\<close> for a key with a registered job, under a caller's context that is done: as
  long as the job's \<open>done\<close> channel is not closed the wait returns
  \<open>errContextCancelled\<close> and \<open>GetImage\<close> returns it, with no bytes and the service
  untouched (the cache is not read: \<open>cache.Get\<close> would move the key to the front);
  and whatever the state of the job, the call does not block once the context is done.
\<close>

theorem GetImage_cancelled_while_in_flight:
  assumes "map_of (workers s) key = Some (WorkerResizeResult j)" and "ctxDone"
  shows "(\<not> doneClosed s j \<longrightarrow>
            waitIfImageIsStillInProgress ctxDone pickCtx key s = Returns (Some ErrContextCancelled) \<and>
            GetImage ctxDone pickCtx key s = Returns (s, None, Some ErrContextCancelled)) \<and>
         GetImage ctxDone pickCtx key s \<noteq> Blocks"
  using assms
  by (simp add: GetImage_def waitIfImageIsStillInProgress_def Let_def
      split: option.splits stored.splits)

theorem GetImage_cancelled_while_in_flight_witness:
  "map_of (workers inFlightService) keyA = Some (WorkerResizeResult 1) \<and>
   \<not> doneClosed inFlightService 1 \<and>
   waitIfImageIsStillInProgress True False keyA inFlightService =
     Returns (Some ErrContextCancelled) \<and>
   GetImage True False keyA inFlightService =
     Returns (inFlightService, None, Some ErrContextCancelled)"
proof -
  have w: "map_of (workers inFlightService) keyA = Some (WorkerResizeResult 1)"
    by (simp add: inFlightService_eval)
  have d: "\<not> doneClosed inFlightService 1"
    by (simp add: inFlightService_eval doneClosed_def newJob_def make_chan_def)
  show ?thesis
    using w d GetImage_cancelled_while_in_flight [OF w, of True False] by simp
qed

text \<open>
  C8. A call of \<open>GetImage\<close> that returns without the cancellation error, for a key that
  is absent from the cache or stored there as something that is not a byte slice,
  returns \<open>nil\<close> bytes and a \<open>nil\<close> error.
\<close>

theorem GetImage_not_found:
  assumes "GetImage ctxDone pickCtx key s = Returns (s', data, err)"
    and "err \<noteq> Some ErrContextCancelled"
    and "map_of (lru_items (cache s)) key = None \<or>
         map_of (lru_items (cache s)) key = Some StoredOther"
  shows "data = None \<and> err = None"
proof (cases err)
  case None
  then have w: "waitIfImageIsStillInProgress ctxDone pickCtx key s = Returns None"
    using assms(1)
    by (cases "waitIfImageIsStillInProgress ctxDone pickCtx key s")
       (auto simp add: GetImage_def split: if_splits option.splits)
  show ?thesis using assms(1,3) w None
    by (auto simp add: GetImage_def lru_Get_def Let_def split: option.splits stored.splits)
next
  case (Some e)
  then show ?thesis using GetImage_error [of ctxDone pickCtx key s s' data e] assms by simp
qed

theorem GetImage_not_found_witness:
  "GetImage False False keyA exampleService = Returns (exampleService, None, None) \<and>
   map_of (lru_items (cache exampleService)) keyA = None \<and>
   map_of (lru_items (cache oddService)) keyA = Some StoredOther \<and>
   (case GetImage False False keyA oddService of
      Blocks \<Rightarrow> False
    | Returns r \<Rightarrow> fst (snd r) = None \<and> snd (snd r) = None)"
proof -
  have g: "GetImage False False keyA exampleService = Returns (exampleService, None, None)"
    by (simp add: eval_defs)
  have a: "map_of (lru_items (cache exampleService)) keyA = None"
    by (simp add: eval_defs)
  have o: "map_of (lru_items (cache oddService)) keyA = Some StoredOther"
    by (simp add: eval_defs)
  have "\<exists>s' data err. GetImage False False keyA oddService = Returns (s', data, err) \<and>
      err \<noteq> Some ErrContextCancelled"
    by (simp add: eval_defs)
  then obtain s' data err
    where g2: "GetImage False False keyA oddService = Returns (s', data, err)"
      and ne: "err \<noteq> Some ErrContextCancelled"
    by blast
  have "data = None \<and> err = None"
    using g2 ne o by (intro GetImage_not_found [of False False keyA oddService s']) simp_all
  then show ?thesis using g a o g2 by simp
qed

text \<open>
  C10. The wait step returns \<open>nil\<close> or \<open>errContextCancelled\<close> and nothing else, so the
  error of \<open>GetImage\<close>, when there is one, is \<open>errContextCancelled\<close> itself and never the
  wrapped error of its second branch; it comes with no bytes, under a caller's context
  that is done, for a key that has a registered job.
\<close>

theorem GetImage_error_only_cancelled:
  "(waitIfImageIsStillInProgress ctxDone pickCtx key s = Returns err \<longrightarrow>
      err = None \<or> err = Some ErrContextCancelled) \<and>
   (GetImage ctxDone pickCtx key s = Returns (s', data, Some e) \<longrightarrow>
      e = ErrContextCancelled \<and> (\<forall>msg cause. e \<noteq> Wrapf msg cause) \<and> data = None \<and> ctxDone \<and>
      (\<exists>j. map_of (workers s) key = Some (WorkerResizeResult j)))"
  using wait_returns [of ctxDone pickCtx key s err]
    GetImage_error [of ctxDone pickCtx key s s' data e]
  by auto

theorem GetImage_error_only_cancelled_witness:
  "waitIfImageIsStillInProgress True True keyA inFlightService = Returns (Some ErrContextCancelled) \<and>
   GetImage True True keyA inFlightService =
     Returns (inFlightService, None, Some ErrContextCancelled) \<and>
   map_of (workers inFlightService) keyA = Some (WorkerResizeResult 1)"
proof -
  have w: "waitIfImageIsStillInProgress True True keyA inFlightService =
      Returns (Some ErrContextCancelled)"
    by (simp add: inFlightService_eval waitIfImageIsStillInProgress_def)
  have g: "GetImage True True keyA inFlightService =
      Returns (inFlightService, None, Some ErrContextCancelled)"
    by (simp add: GetImage_def w)
  show ?thesis
    using w g GetImage_error_only_cancelled [of True True keyA inFlightService
        "Some ErrContextCancelled" inFlightService None ErrContextCancelled]
    by (simp add: inFlightService_eval)
qed

section \<open>The async flag\<close>

lemma ParseBool_True:
  "fst (ParseBool v) \<Longrightarrow> ParseBool v = (True, None) \<and> v \<in> set [''1'', ''t'', ''T'', ''TRUE'', ''true'', ''True'']"
  by (simp add: ParseBool_def split: if_splits)

lemma ParseBool_error: "snd (ParseBool v) \<noteq> None \<Longrightarrow> \<not> fst (ParseBool v)"
  by (simp add: ParseBool_def split: if_splits)

text \<open>
  C9. For a request the handler hands to \<open>ProcessResizes\<close>: when the query has no
  \<open>async\<close> parameter, or its first value is not a boolean for \<open>strconv.ParseBool\<close>, the
  flag is false and \<open>ProcessResizes\<close> is the synchronous path; the flag is true, and
  \<open>ProcessResizes\<close> the asynchronous path, only when the first value parses as true
  without error.
\<close>

theorem async_flag_defaults_to_sync:
  assumes "resizeRequestOf env r = Inr request"
  shows "((map_of (Query r) asyncParamName = None \<or>
           (\<exists>v vs. map_of (Query r) asyncParamName = Some (v # vs) \<and> snd (ParseBool v) \<noteq> None)) \<longrightarrow>
            \<not> Async request \<and>
            ProcessResizes env request s = processResizesSync env request s) \<and>
         (Async request \<longrightarrow>
            (\<exists>v vs. map_of (Query r) asyncParamName = Some (v # vs) \<and> ParseBool v = (True, None)) \<and>
            ProcessResizes env request s = processResizesAsync env request s) \<and>
         (\<not> Async request \<longrightarrow> ProcessResizes env request s = processResizesSync env request s)"
proof -
  have cases: "(map_of (Query r) asyncParamName = None \<and> \<not> Async request) \<or>
     (\<exists>v vs. map_of (Query r) asyncParamName = Some (v # vs) \<and> Async request = fst (ParseBool v))"
    using assms
    by (auto simp add: resizeRequestOf_def Let_def split: if_splits sum.splits option.splits list.splits)
  show ?thesis
  proof (intro conjI impI)
    assume h: "map_of (Query r) asyncParamName = None \<or>
           (\<exists>v vs. map_of (Query r) asyncParamName = Some (v # vs) \<and> snd (ParseBool v) \<noteq> None)"
    show na: "\<not> Async request" using h cases ParseBool_error by auto
    show "ProcessResizes env request s = processResizesSync env request s"
      using na by (rule ProcessResizes_sync)
  next
    assume a: "Async request"
    show "\<exists>v vs. map_of (Query r) asyncParamName = Some (v # vs) \<and> ParseBool v = (True, None)"
      using a cases ParseBool_True by auto
    show "ProcessResizes env request s = processResizesAsync env request s"
      using a by (rule ProcessResizes_async)
  next
    assume "\<not> Async request"
    then show "ProcessResizes env request s = processResizesSync env request s"
      by (rule ProcessResizes_sync)
  qed
qed

theorem async_flag_defaults_to_sync_witness:
  "resizeRequestOf exampleEnv invalidFlagRequest =
     Inr \<lparr>Async = False, URLs = [''a''], Width = 100, Height = 100\<rparr> \<and>
   map_of (Query invalidFlagRequest) asyncParamName = Some [''maybe''] \<and>
   snd (ParseBool ''maybe'') \<noteq> None \<and>
   ProcessResizes exampleEnv \<lparr>Async = False, URLs = [''a''], Width = 100, Height = 100\<rparr> exampleService =
     processResizesSync exampleEnv \<lparr>Async = False, URLs = [''a''], Width = 100, Height = 100\<rparr> exampleService \<and>
   resizeRequestOf exampleEnv noFlagRequest =
     Inr \<lparr>Async = False, URLs = [''a''], Width = 100, Height = 100\<rparr> \<and>
   map_of (Query noFlagRequest) asyncParamName = None \<and>
   resizeRequestOf exampleEnv trueFlagRequest =
     Inr \<lparr>Async = True, URLs = [''a''], Width = 100, Height = 100\<rparr> \<and>
   ParseBool ''true'' = (True, None) \<and>
   ProcessResizes exampleEnv \<lparr>Async = True, URLs = [''a''], Width = 100, Height = 100\<rparr> exampleService =
     processResizesAsync exampleEnv \<lparr>Async = True, URLs = [''a''], Width = 100, Height = 100\<rparr> exampleService"
proof -
  have i: "resizeRequestOf exampleEnv invalidFlagRequest =
     Inr \<lparr>Async = False, URLs = [''a''], Width = 100, Height = 100\<rparr>"
    by (simp add: resizeRequestOf_def invalidFlagRequest_def exampleEnv_def asyncParamName_def
        ParseBool_def)
  have n: "resizeRequestOf exampleEnv noFlagRequest =
     Inr \<lparr>Async = False, URLs = [''a''], Width = 100, Height = 100\<rparr>"
    by (simp add: resizeRequestOf_def noFlagRequest_def exampleEnv_def asyncParamName_def)
  have t: "resizeRequestOf exampleEnv trueFlagRequest =
     Inr \<lparr>Async = True, URLs = [''a''], Width = 100, Height = 100\<rparr>"
    by (simp add: resizeRequestOf_def trueFlagRequest_def exampleEnv_def asyncParamName_def
        ParseBool_def)
  have q: "map_of (Query invalidFlagRequest) asyncParamName = Some [''maybe'']"
      "snd (ParseBool ''maybe'') \<noteq> None"
      "map_of (Query noFlagRequest) asyncParamName = None"
      "ParseBool ''true'' = (True, None)"
    by (simp_all add: invalidFlagRequest_def noFlagRequest_def asyncParamName_def ParseBool_def)
  show ?thesis
    using i n t q
      async_flag_defaults_to_sync [OF i, of exampleService]
      async_flag_defaults_to_sync [OF t, of exampleService]
    by simp
qed

section \<open>The worker\<close>

lemma workerStep_resized:
  "j < length (jobs s) \<Longrightarrow> w_pc (jobs s ! j) = WResized \<Longrightarrow>
   workerStep env j s =
     set_worker j (\<lambda>w. w\<lparr>w_pc := WReturning\<rparr>)
       (s\<lparr>workers := AList.delete (dKey (w_request (jobs s ! j))) (workers s)\<rparr>)"
  by (simp add: workerStep_def Let_def)

lemma workerStep_returning:
  "j < length (jobs s) \<Longrightarrow> w_pc (jobs s ! j) = WReturning \<Longrightarrow>
   workerStep env j s = set_worker j (\<lambda>w. (Close w)\<lparr>w_pc := WClosed\<rparr>) s"
  by (simp add: workerStep_def Let_def)

lemma runWorker_eq:
  assumes j: "j < length (jobs s)" and pc: "w_pc (jobs s ! j) = WSpawned" and c: "\<not> w_ctxDone (jobs s ! j)"
  shows "runWorker env j s =
     (let s1 = fst (resizeAndCache env (w_request (jobs s ! j)) s)
      in s1\<lparr>workers := AList.delete (dKey (w_request (jobs s ! j))) (workers s),
            jobs := (jobs s)[j := (Close (jobs s ! j))\<lparr>w_pc := WClosed\<rparr>]\<rparr>)"
proof -
  let ?s1 = "fst (resizeAndCache env (w_request (jobs s ! j)) s)"
  let ?a = "set_worker j (\<lambda>w. w\<lparr>w_pc := WResized\<rparr>) ?s1"
  let ?b = "set_worker j (\<lambda>w. w\<lparr>w_pc := WReturning\<rparr>)
       (?a\<lparr>workers := AList.delete (dKey (w_request (jobs ?a ! j))) (workers ?a)\<rparr>)"
  have 1: "workerStep env j s = ?a" using j pc c by (rule workerStep_spawned)
  have ja: "j < length (jobs ?a)" "w_pc (jobs ?a ! j) = WResized"
    using j by (simp_all add: set_worker_def resizeAndCache_jobs)
  have 2: "workerStep env j ?a = ?b" using ja by (rule workerStep_resized)
  have jb: "j < length (jobs ?b)" "w_pc (jobs ?b ! j) = WReturning"
    using j by (simp_all add: set_worker_def resizeAndCache_jobs)
  have 3: "workerStep env j ?b = set_worker j (\<lambda>w. (Close w)\<lparr>w_pc := WClosed\<rparr>) ?b"
    using jb by (rule workerStep_returning)
  have "runWorker env j s = set_worker j (\<lambda>w. (Close w)\<lparr>w_pc := WClosed\<rparr>) ?b"
    by (simp only: runWorker_def 1 2 3)
  also have "\<dots> = (let s1 = ?s1
      in s1\<lparr>workers := AList.delete (dKey (w_request (jobs s ! j))) (workers s),
            jobs := (jobs s)[j := (Close (jobs s ! j))\<lparr>w_pc := WClosed\<rparr>]\<rparr>)"
    using j by (simp add: set_worker_def resizeAndCache_jobs resizeAndCache_workers Let_def Close_def)
  finally show ?thesis .
qed

text \<open>
  C5. A worker that is dispatched and runs to its end: when its fetch or its transform
  fails, the cache and the timestamp table are after the run what they were before
  it; and, whether it failed or not, the worker has deleted the registry entry of its
  key, has closed its \<open>done\<close> channel (every waiter's \<open>select\<close> is ready) and is at its
  end.
\<close>

theorem failed_job_leaves_cache_and_still_completes:
  assumes "j < length (jobs s)" and "w_pc (jobs s ! j) = WSpawned" and "\<not> w_ctxDone (jobs s ! j)"
  shows "((\<exists>err. fetchAndResize env (w_request (jobs s ! j)) = Inl err) \<longrightarrow>
            cache (runWorker env j s) = cache s \<and>
            cacheDeadline (runWorker env j s) = cacheDeadline s) \<and>
         workers (runWorker env j s) = AList.delete (dKey (w_request (jobs s ! j))) (workers s) \<and>
         map_of (workers (runWorker env j s)) (dKey (w_request (jobs s ! j))) = None \<and>
         doneClosed (runWorker env j s) j \<and>
         w_pc (jobs (runWorker env j s) ! j) = WClosed"
  using assms
  by (auto simp add: runWorker_eq Let_def resizeAndCache_fail doneClosed_def Close_def delete_conv')

theorem failed_job_leaves_cache_and_still_completes_witness:
  "(0::nat) < length (jobs failingService) \<and>
   w_pc (jobs failingService ! 0) = WSpawned \<and>
   \<not> w_ctxDone (jobs failingService ! 0) \<and>
   fetchAndResize exampleEnv (w_request (jobs failingService ! 0)) =
     Inl (Errorf ''fetch failed'' (Failure ''no such host'')) \<and>
   map_of (workers failingService) keyBad = Some (WorkerResizeResult 0) \<and>
   cache (runWorker exampleEnv 0 failingService) = cache failingService \<and>
   cacheDeadline (runWorker exampleEnv 0 failingService) = cacheDeadline failingService \<and>
   map_of (workers (runWorker exampleEnv 0 failingService)) keyBad = None \<and>
   doneClosed (runWorker exampleEnv 0 failingService) 0"
proof -
  have j: "(0::nat) < length (jobs failingService)" by (simp add: failingService_eval)
  have p: "w_pc (jobs failingService ! 0) = WSpawned"
    by (simp add: failingService_eval newJob_def)
  have c: "\<not> w_ctxDone (jobs failingService ! 0)"
    by (simp add: failingService_eval newJob_def)
  have f: "fetchAndResize exampleEnv (w_request (jobs failingService ! 0)) =
     Inl (Errorf ''fetch failed'' (Failure ''no such host''))"
    by (simp add: failingService_eval newJob_def fetchAndResize_def fetch_def exampleEnv_def)
  have k: "dKey (w_request (jobs failingService ! 0)) = keyBad"
    by (simp add: failingService_eval newJob_def eval_defs)
  have w: "map_of (workers failingService) keyBad = Some (WorkerResizeResult 0)"
    by (simp add: failingService_eval)
  show ?thesis
    using j p c f k w failed_job_leaves_cache_and_still_completes [OF j p c, of exampleEnv]
    by (simp add: delete_conv')
qed

section \<open>Who deletes from the registry\<close>

lemma nothingSent_frame [simp]:
  "nothingSent (s\<lparr>cache := c\<rparr>) = nothingSent s"
  "nothingSent (s\<lparr>cacheDeadline := d\<rparr>) = nothingSent s"
  "nothingSent (s\<lparr>fetched := f\<rparr>) = nothingSent s"
  "nothingSent (s\<lparr>workers := ws\<rparr>) = nothingSent s"
  "nothingSent (s\<lparr>now := n\<rparr>) = nothingSent s"
  "nothingSent (s\<lparr>appCtxDone := b\<rparr>) = nothingSent s"
  "nothingSent (s\<lparr>cleaner := cl\<rparr>) = nothingSent s"
  "nothingSent (s\<lparr>workerWorkStream := ch\<rparr>) = nothingSent s"
  by (simp_all add: nothingSent_def)

lemma resizeAndCache_nothingSent:
  "nothingSent (fst (resizeAndCache env d s)) = nothingSent s"
  by (simp add: resizeAndCache_def Let_def split: sum.splits)

lemma syncStep_nothingSent:
  "nothingSent (fst (syncStep env rq u (s, []))) = nothingSent s"
  by (simp add: syncStep_def Let_def resizeAndCache_nothingSent split: option.splits)

lemma sync_nothingSent:
  "nothingSent (fold (\<lambda>u s. fst (syncStep env rq u (s, []))) us s) = nothingSent s"
  by (induction us arbitrary: s) (simp_all add: syncStep_nothingSent)

lemma async_nothingSent:
  "nothingSent s \<Longrightarrow> nothingSent (fold (\<lambda>u s. fst (asyncStep env rq u (s, []))) us s)"
proof -
  assume a: "nothingSent s"
  have "nothingSent (s\<lparr>jobs := jobs (fold (\<lambda>u s. fst (asyncStep env rq u (s, []))) us s),
       workers := workers (fold (\<lambda>u s. fst (asyncStep env rq u (s, []))) us s)\<rparr>)"
    using a by (auto simp add: nothingSent_def async_jobs newJob_def make_chan_def list_all_iff)
  then show ?thesis using async_frame [of env rq us s] by simp
qed

lemma ProcessResizes_nothingSent:
  "nothingSent s \<Longrightarrow> nothingSent (fst (ProcessResizes env request s))"
  by (cases "Async request")
     (simp_all add: ProcessResizes_async ProcessResizes_sync async_results sync_results
        syncPrefix_fold sync_nothingSent async_nothingSent)

lemma GetImage_nothingSent:
  "GetImage ctxDone pickCtx key s = Returns r \<Longrightarrow> nothingSent (fst r) = nothingSent s"
  by (auto simp add: GetImage_def Let_def split: outcome.splits if_splits option.splits stored.splits)

lemma workerStep_nothingSent:
  "nothingSent s \<Longrightarrow> nothingSent (workerStep env j s)"
proof -
  assume a: "nothingSent s"
  have upd: "\<And>f s. nothingSent s \<Longrightarrow> j < length (jobs s) \<Longrightarrow>
       chan_offered (wr_value (f (jobs s ! j))) = chan_offered (wr_value (jobs s ! j)) \<Longrightarrow>
       w_ctxDone (f (jobs s ! j)) = w_ctxDone (jobs s ! j) \<Longrightarrow>
       nothingSent (set_worker j f s)"
    by (auto simp add: nothingSent_def set_worker_def list_all_length nth_list_update)
  show ?thesis
  proof (cases "length (jobs s) \<le> j")
    case True
    then show ?thesis using a by (simp add: workerStep_def)
  next
    case False
    then have j: "j < length (jobs s)" by simp
    have nc: "\<not> w_ctxDone (jobs s ! j)" using a j by (simp add: nothingSent_def list_all_length)
    show ?thesis
    proof (cases "w_pc (jobs s ! j)")
      case WSpawned
      have "nothingSent (fst (resizeAndCache env (w_request (jobs s ! j)) s))"
        using a by (simp add: resizeAndCache_nothingSent)
      then have "nothingSent (set_worker j (\<lambda>w. w\<lparr>w_pc := WResized\<rparr>)
           (fst (resizeAndCache env (w_request (jobs s ! j)) s)))"
        using j by (intro upd) (simp_all add: resizeAndCache_jobs)
      then show ?thesis using j WSpawned nc by (simp add: workerStep_spawned)
    next
      case WResized
      have "nothingSent (set_worker j (\<lambda>w. w\<lparr>w_pc := WReturning\<rparr>)
         (s\<lparr>workers := AList.delete (dKey (w_request (jobs s ! j))) (workers s)\<rparr>))"
        using a j by (intro upd) simp_all
      then show ?thesis using j WResized by (simp add: workerStep_resized)
    next
      case WReturning
      have "nothingSent (set_worker j (\<lambda>w. (Close w)\<lparr>w_pc := WClosed\<rparr>) s)"
        using a j by (intro upd) (simp_all add: Close_def)
      then show ?thesis using j WReturning by (simp add: workerStep_returning)
    next
      case WClosed
      then show ?thesis using a j by (simp add: workerStep_def Let_def)
    qed
  qed
qed

lemma bridgeStep_nothingSent:
  "nothingSent s \<Longrightarrow> nothingSent (bridgeStep pickCtx s)"
proof -
  assume a: "nothingSent s"
  then have o: "chan_offered (workerResultStream s) = []"
    and b: "bridge s = BSelect \<or> bridge s = BExited"
    by (simp_all add: nothingSent_def)
  from b show ?thesis
  proof
    assume "bridge s = BSelect"
    then show ?thesis using a o by (simp add: bridgeStep_def bridgeExit_def Let_def nothingSent_def)
  next
    assume "bridge s = BExited"
    then show ?thesis using a by (simp add: bridgeStep_def)
  qed
qed

lemma cleanerStep_quiet:
  "nothingSent s \<Longrightarrow> workers (cleanerStep pickCtx s) = workers s \<and> nothingSent (cleanerStep pickCtx s)"
  by (auto simp add: nothingSent_def cleanerStep_def split: cleaner_pc.splits)

lemma evict_nothingSent:
  "nothingSent (fold (\<lambda>kv. evictEntry (fst kv) (snd kv)) xs s) = nothingSent s"
  by (induction xs arbitrary: s)
     (simp_all add: evictEntry_def Let_def split: deadline_value.splits)

lemma step_nothingSent:
  "nothingSent s \<Longrightarrow> nothingSent (step env e s)"
  by (cases e)
     (simp_all add: step_def ProcessResizes_nothingSent GetImage_nothingSent workerStep_nothingSent
        bridgeStep_nothingSent cleanerStep_quiet evictionTick_def evict_nothingSent
        split: outcome.splits)

lemma run_nothingSent:
  "nothingSent s \<Longrightarrow> nothingSent (run env es s)"
  unfolding run_def by (induction es arbitrary: s) (simp_all add: step_nothingSent)

lemma start_nothingSent: "nothingSent (StartWorkerHandler (NewService c))"
  by (simp add: nothingSent_def StartWorkerHandler_def NewService_def make_chan_def)

text \<open>
  C3, as the code has it. In every state the process reaches from its start, whatever
  requests arrive and however the goroutines are scheduled: a step of the cleaner
  leaves the registry as it is, the bridge never gets past its outer \<open>select\<close>,
  nothing is on offer on \<open>workerResultStream\<close> or on the \<open>value\<close> channel of any worker
  (the worker only closes it), every worker goes from its start to the point after
  \<open>resizeAndCache\<close>, and there the worker's own next step deletes the entry of its key
  from the registry.
\<close>

theorem worker_deregisters_cleaner_never:
  assumes "s = run env es (StartWorkerHandler (NewService c))"
  shows "workers (cleanerStep pickCtx s) = workers s \<and>
         (bridge (bridgeStep pickCtx s) = BSelect \<or> bridge (bridgeStep pickCtx s) = BExited) \<and>
         chan_offered (workerResultStream s) = [] \<and>
         (\<forall>j < length (jobs s).
            chan_offered (wr_value (jobs s ! j)) = [] \<and>
            (w_pc (jobs s ! j) = WSpawned \<longrightarrow> w_pc (jobs (workerStep env j s) ! j) = WResized) \<and>
            (w_pc (jobs s ! j) = WResized \<longrightarrow>
               workers (workerStep env j s) =
                 AList.delete (dKey (w_request (jobs s ! j))) (workers s)))"
proof -
  have q: "nothingSent s" unfolding assms by (rule run_nothingSent [OF start_nothingSent])
  have b: "nothingSent (bridgeStep pickCtx s)" using q by (rule bridgeStep_nothingSent)
  show ?thesis
  proof (intro conjI allI impI)
    show "workers (cleanerStep pickCtx s) = workers s" using q cleanerStep_quiet by simp
    show "bridge (bridgeStep pickCtx s) = BSelect \<or> bridge (bridgeStep pickCtx s) = BExited"
      using b by (simp add: nothingSent_def)
    show "chan_offered (workerResultStream s) = []" using q by (simp add: nothingSent_def)
  next
    fix j assume j: "j < length (jobs s)"
    show "chan_offered (wr_value (jobs s ! j)) = []"
      using q j by (simp add: nothingSent_def list_all_length)
    have nc: "\<not> w_ctxDone (jobs s ! j)" using q j by (simp add: nothingSent_def list_all_length)
    { assume "w_pc (jobs s ! j) = WSpawned"
      then show "w_pc (jobs (workerStep env j s) ! j) = WResized"
        using j nc by (simp add: workerStep_spawned set_worker_def resizeAndCache_jobs) }
    { assume "w_pc (jobs s ! j) = WResized"
      then show "workers (workerStep env j s) =
                 AList.delete (dKey (w_request (jobs s ! j))) (workers s)"
        using j by (simp add: workerStep_resized set_worker_def) }
  qed
qed

theorem worker_deregisters_cleaner_never_witness:
  "run exampleEnv [WorkerRuns 1] inFlightService =
     run exampleEnv [Resizes exampleAsync, WorkerRuns 1]
       (StartWorkerHandler (NewService \<lparr>lru_size = 1024, lru_items = []\<rparr>)) \<and>
   (1::nat) < length (jobs (run exampleEnv [WorkerRuns 1] inFlightService)) \<and>
   w_pc (jobs (run exampleEnv [WorkerRuns 1] inFlightService) ! 1) = WResized \<and>
   map_of (workers (run exampleEnv [WorkerRuns 1] inFlightService)) keyA =
     Some (WorkerResizeResult 1) \<and>
   workers (workerStep exampleEnv 1 (run exampleEnv [WorkerRuns 1] inFlightService)) = [] \<and>
   workers (cleanerStep False (run exampleEnv [WorkerRuns 1] inFlightService)) =
     workers (run exampleEnv [WorkerRuns 1] inFlightService)"
proof -
  let ?s = "run exampleEnv [WorkerRuns 1] inFlightService"
  have r: "?s = run exampleEnv [Resizes exampleAsync, WorkerRuns 1]
       (StartWorkerHandler (NewService \<lparr>lru_size = 1024, lru_items = []\<rparr>))"
    by (simp add: inFlightService_def exampleService_def run_def)
  have j: "(1::nat) < length (jobs ?s)"
    by (simp add: inFlightService_eval) (simp add: eval_defs newJob_def)
  have p: "w_pc (jobs ?s ! 1) = WResized"
    by (simp add: inFlightService_eval) (simp add: eval_defs newJob_def)
  have w: "workers ?s = [(keyA, WorkerResizeResult 1)]"
    by (simp add: inFlightService_eval) (simp add: eval_defs newJob_def)
  have k: "dKey (w_request (jobs ?s ! 1)) = keyA"
    by (simp add: inFlightService_eval) (simp add: eval_defs newJob_def)
  show ?thesis
    using r j p w k worker_deregisters_cleaner_never [OF r, of False]
    by (simp add: AList.delete_eq)
qed

text \<open>
  C3, as the claim states it, fails: with one worker's entry in the registry, two steps
  of that worker and no step of the bridge or the cleaner, the entry is gone; the
  worker deleted it.
\<close>

theorem worker_itself_deletes_entry:
  "map_of (workers failingService) keyBad = Some (WorkerResizeResult 0) \<and>
   map_of (workers (run exampleEnv [WorkerRuns 0] failingService)) keyBad =
     Some (WorkerResizeResult 0) \<and>
   workers (run exampleEnv [WorkerRuns 0, WorkerRuns 0] failingService) = [] \<and>
   cleaner (run exampleEnv [WorkerRuns 0, WorkerRuns 0] failingService) = CSelect \<and>
   bridge (run exampleEnv [WorkerRuns 0, WorkerRuns 0] failingService) = BSelect"
  by (simp add: failingService_eval) (simp add: eval_defs newJob_def)

section \<open>The sweep\<close>

text \<open>
  C2 fails on the code. The callback of the sweep returns early when
  \<open>insertionTime + 5s\<close> is before now, so an expired key is kept, and removes the key
  otherwise. Here the key of \<open>''a''\<close> was stamped at 0 and the key of \<open>''bb''\<close> at 10 s,
  and it is 11 s: the tick keeps the first in the cache and in the table, and
  \<open>GetImage\<close> still serves its bytes, while the second, whose time has not come, is
  removed from both.
\<close>

theorem sweep_keeps_expired_removes_fresh:
  "map_of (cacheDeadline agedService) keyA = Some (TimeValue 0) \<and>
   0 + 5 * second < now agedService \<and>
   map_of (cacheDeadline agedService) keyB = Some (TimeValue (10 * second)) \<and>
   now agedService < 10 * second + 5 * second \<and>
   lru_Contains (cache (evictionTick agedService)) keyA \<and>
   map_of (cacheDeadline (evictionTick agedService)) keyA = Some (TimeValue 0) \<and>
   (case GetImage False False keyA (evictionTick agedService) of
      Blocks \<Rightarrow> None
    | Returns r \<Rightarrow> fst (snd r)) = Some [1, 2, 3] \<and>
   \<not> lru_Contains (cache (evictionTick agedService)) keyB \<and>
   map_of (cacheDeadline (evictionTick agedService)) keyB = None"
  by (simp add: agedService_eval) (simp add: eval_defs)

end
